theory Spec2Isabelle
  imports Complex_Main
begin

section \<open>Python floats\<close>

text \<open>
  The service computes with Python floats, which are IEEE 754 binary64 numbers, and its
  sanitisation steps test for infinity, NaN and negative values. A float is modelled as a
  real number or one of the three special values. In arithmetic the two zeros are one value.
\<close>

datatype pyfloat = Fin real | PInf | NInf | NaN

text \<open>
  Rounding to the nearest integer, a tie going to the even neighbour.
\<close>

definition round_half_even :: "real \<Rightarrow> int" where
  "round_half_even x =
     (let f = \<lfloor>x\<rfloor>; r = x - of_int f
      in if r < 1 / 2 then f else if 1 / 2 < r then f + 1 else if even f then f else f + 1)"

text \<open>
  The exponent of the unit in the last place of a binary64 number near \<open>x\<close>: 52 binary
  digits below the leading one, and never below the spacing \<open>2^-1074\<close> of the subnormal
  numbers.
\<close>

definition ulp_exponent :: "real \<Rightarrow> int" where
  "ulp_exponent x = max \<lfloor>log 2 \<bar>x\<bar>\<rfloor> (- 1022) - 52"

text \<open>
  The binary64 number nearest to \<open>x\<close>, ties to even, with the exponent unbounded above.
\<close>

definition round_double :: "real \<Rightarrow> real" where
  "round_double x =
     (if x = 0 then 0
      else of_int (round_half_even (x / 2 powr of_int (ulp_exponent x)))
             * 2 powr of_int (ulp_exponent x))"

text \<open>
  The float an arithmetic operation returns when its exact result is \<open>x\<close>: the rounded
  value, or an infinity when the rounded value is beyond the largest binary64 number.
\<close>

definition to_float :: "real \<Rightarrow> pyfloat" where
  "to_float x =
     (let r = round_double x
      in if 2 ^ 1024 \<le> \<bar>r\<bar> then (if 0 < r then PInf else NInf) else Fin r)"

datatype error =
    HTTPException nat string
  | ZeroDivisionError
  | ValueError
  | OverflowError
  | IndexError

text \<open>The comparison \<open>a < b\<close>: every comparison with NaN is false.\<close>

fun flt :: "pyfloat \<Rightarrow> pyfloat \<Rightarrow> bool" where
  "flt NaN _ = False"
| "flt _ NaN = False"
| "flt (Fin a) (Fin b) = (a < b)"
| "flt (Fin _) PInf = True"
| "flt (Fin _) NInf = False"
| "flt PInf _ = False"
| "flt NInf NInf = False"
| "flt NInf _ = True"

text \<open>
  Python's \<open>min(a, b)\<close> keeps \<open>a\<close> unless \<open>b < a\<close>, and \<open>max(a, b)\<close> keeps \<open>a\<close>
  unless \<open>b > a\<close>; so a NaN in second place is never chosen and a NaN in first place is
  always kept.
\<close>

definition py_min :: "pyfloat \<Rightarrow> pyfloat \<Rightarrow> pyfloat" where
  "py_min a b = (if flt b a then b else a)"

definition py_max :: "pyfloat \<Rightarrow> pyfloat \<Rightarrow> pyfloat" where
  "py_max a b = (if flt a b then b else a)"

definition isnan :: "pyfloat \<Rightarrow> bool" where
  "isnan a = (a = NaN)"

fun fadd :: "pyfloat \<Rightarrow> pyfloat \<Rightarrow> pyfloat" where
  "fadd NaN _ = NaN"
| "fadd _ NaN = NaN"
| "fadd (Fin a) (Fin b) = to_float (a + b)"
| "fadd PInf NInf = NaN"
| "fadd NInf PInf = NaN"
| "fadd PInf _ = PInf"
| "fadd _ PInf = PInf"
| "fadd NInf _ = NInf"
| "fadd _ NInf = NInf"

text \<open>The sign of an infinite product; infinity times zero is NaN.\<close>

definition inf_times :: "bool \<Rightarrow> real \<Rightarrow> pyfloat" where
  "inf_times positive a =
     (if a = 0 then NaN else if (0 < a) = positive then PInf else NInf)"

fun fmul :: "pyfloat \<Rightarrow> pyfloat \<Rightarrow> pyfloat" where
  "fmul NaN _ = NaN"
| "fmul _ NaN = NaN"
| "fmul (Fin a) (Fin b) = to_float (a * b)"
| "fmul (Fin a) PInf = inf_times True a"
| "fmul (Fin a) NInf = inf_times False a"
| "fmul PInf (Fin b) = inf_times True b"
| "fmul NInf (Fin b) = inf_times False b"
| "fmul PInf PInf = PInf"
| "fmul NInf NInf = PInf"
| "fmul PInf NInf = NInf"
| "fmul NInf PInf = NInf"

text \<open>
  Float division raises \<open>ZeroDivisionError\<close> on a zero divisor, whatever the dividend;
  \<open>fdiv_nz\<close> is the quotient by a divisor that is not zero.
\<close>

fun fdiv_nz :: "pyfloat \<Rightarrow> pyfloat \<Rightarrow> pyfloat" where
  "fdiv_nz NaN _ = NaN"
| "fdiv_nz _ NaN = NaN"
| "fdiv_nz (Fin a) (Fin b) = to_float (a / b)"
| "fdiv_nz (Fin _) PInf = Fin 0"
| "fdiv_nz (Fin _) NInf = Fin 0"
| "fdiv_nz PInf (Fin b) = (if 0 < b then PInf else NInf)"
| "fdiv_nz NInf (Fin b) = (if 0 < b then NInf else PInf)"
| "fdiv_nz PInf _ = NaN"
| "fdiv_nz NInf _ = NaN"

definition fdiv :: "pyfloat \<Rightarrow> pyfloat \<Rightarrow> error + pyfloat" where
  "fdiv a b = (if b = Fin 0 then Inl ZeroDivisionError else Inr (fdiv_nz a b))"

text \<open>
  \<open>int(x)\<close> truncates towards zero, exactly; it raises \<open>ValueError\<close> on NaN and
  \<open>OverflowError\<close> on an infinity.
\<close>

fun py_int :: "pyfloat \<Rightarrow> error + int" where
  "py_int (Fin r) = Inr (if 0 \<le> r then \<lfloor>r\<rfloor> else \<lceil>r\<rceil>)"
| "py_int NaN = Inl ValueError"
| "py_int PInf = Inl OverflowError"
| "py_int NInf = Inl OverflowError"

text \<open>Sequencing of computations that may raise: the first error wins.\<close>

definition bind_r :: "error + 'a \<Rightarrow> ('a \<Rightarrow> error + 'b) \<Rightarrow> error + 'b" where
  "bind_r m f = (case m of Inl e \<Rightarrow> Inl e | Inr x \<Rightarrow> f x)"

fun map_r :: "('a \<Rightarrow> error + 'b) \<Rightarrow> 'a list \<Rightarrow> error + 'b list" where
  "map_r f [] = Inr []"
| "map_r f (x # xs) =
     bind_r (f x) (\<lambda>y. bind_r (map_r f xs) (\<lambda>ys. Inr (y # ys)))"

section \<open>Data model\<close>

datatype point_type = current_location | order | warehouse

text \<open>
  A latitude or a longitude. The service never computes with a coordinate: it prints it, in
  the cache key and in the provider's URL, and copies it, into the features of the model and
  into the response. Printing tells the two zeros apart, so the zero with the sign bit set
  is a value of its own: \<open>Degrees v\<close> is the float \<open>v\<close>, where \<open>Degrees (Fin 0)\<close> is the zero
  that prints as \<open>0.0\<close>, and \<open>MinusZero\<close> is the zero that prints as \<open>-0.0\<close>.
\<close>

datatype coordinate = Degrees pyfloat | MinusZero

text \<open>An entry of \<open>all_points_details\<close>; only order points carry a weight.\<close>

record point_detail =
  pd_type :: point_type
  pd_id :: string
  pd_latitude :: coordinate
  pd_longitude :: coordinate
  pd_weight :: "pyfloat option"

record OrderInput =
  oi_id :: string
  oi_latitude :: coordinate
  oi_longitude :: coordinate
  oi_weight :: pyfloat

record OptimizeRouteRequest =
  orders :: "OrderInput list"
  warehouse_latitude :: "coordinate option"
  warehouse_longitude :: "coordinate option"
  current_latitude :: coordinate
  current_longitude :: coordinate
  weight_time :: real
  weight_distance :: real

text \<open>
  The constraints the request schema declares on its fields: both weights are floats with
  \<open>ge=0.0, le=1.0\<close>, and an order's weight has \<open>gt=0\<close>. The framework rejects a request
  that violates them before the endpoint runs. A real number is a float when rounding
  leaves it as it is.
\<close>

definition field_constraints :: "OptimizeRouteRequest \<Rightarrow> bool" where
  "field_constraints req =
     (round_double (weight_time req) = weight_time req \<and>
      round_double (weight_distance req) = weight_distance req \<and>
      0 \<le> weight_time req \<and> weight_time req \<le> 1 \<and>
      0 \<le> weight_distance req \<and> weight_distance req \<le> 1 \<and>
      list_all (\<lambda>ord. flt (Fin 0) (oi_weight ord)) (orders req))"

record RoutePoint =
  rp_id :: "string option"
  rp_type :: point_type
  rp_latitude :: coordinate
  rp_longitude :: coordinate

record RouteSegmentDetail =
  from_point_id :: string
  to_point_id :: string
  from_type :: point_type
  to_type :: point_type
  duration_seconds :: pyfloat
  distance_meters :: pyfloat

text \<open>
  A leg of the provider's answer; the turn-by-turn steps inside a leg are copied field by
  field by the service and are left out here.
\<close>

record Leg =
  leg_summary :: string
  leg_distance :: pyfloat
  leg_duration :: pyfloat

record OptimizedRouteResponse =
  optimized_route :: "RoutePoint list"
  total_predicted_time_seconds :: pyfloat
  total_distance_meters :: pyfloat
  message :: string
  segments_details :: "RouteSegmentDetail list option"
  full_route_geometry :: "string option"
  full_route_legs :: "Leg list option"

section \<open>External collaborators\<close>

text \<open>
  The first route of a Directions answer. Each key may be absent; a route with no key at
  all is the empty dictionary, which the service treats like no answer.
\<close>

record route_data =
  rd_distance :: "pyfloat option"
  rd_duration :: "pyfloat option"
  rd_geometry :: "string option"
  rd_legs :: "Leg list option"

record mapbox_request =
  mr_coords :: "(coordinate \<times> coordinate) list"
  mr_overview :: string
  mr_steps :: bool

text \<open>
  What \<open>requests.get\<close> followed by \<open>raise_for_status\<close> and \<open>json\<close> can end in: one of
  the three exception classes the helper catches, or a body with its list of routes (empty
  when the key is missing).
\<close>

datatype http_outcome = Timeout | RequestException | UnexpectedException
  | Json "route_data list"

record features =
  senderLat :: coordinate
  senderLng :: coordinate
  receiverLat :: coordinate
  receiverLng :: coordinate
  f_weight :: pyfloat
  order_hour :: nat
  order_day :: nat
  shippingDistance :: pyfloat

text \<open>The calls that leave the process, in the order they are made.\<close>

datatype event =
    MapboxCall mapbox_request
  | PredictCall features
  | SolverCall "int list list" nat nat nat

text \<open>
  The environment of one request: the HTTP transport, the loaded model (absent when the
  file was not found; a model returns \<open>None\<close> where \<open>predict\<close> raises), the routing
  library, the clock and the default warehouse. The routing library answers with the nodes
  met when following its solution from the start index to the end index, as a first node
  and the nodes after it, or with \<open>None\<close> when it has no solution.
\<close>

record config =
  http_get :: "mapbox_request \<Rightarrow> http_outcome"
  DELIVERY_MODEL :: "(features \<Rightarrow> pyfloat option) option"
  ortools :: "int list list \<Rightarrow> nat \<Rightarrow> nat \<Rightarrow> nat \<Rightarrow> (nat \<times> nat list) option"
  current_hour :: nat
  current_day :: nat
  WAREHOUSE_COORDS :: "coordinate \<times> coordinate"

section \<open>The Mapbox helper\<close>

definition get_mapbox_route_data ::
  "(mapbox_request \<Rightarrow> http_outcome) \<Rightarrow> (coordinate \<times> coordinate) list \<Rightarrow> string \<Rightarrow> bool
     \<Rightarrow> event list \<times> route_data option" where
  "get_mapbox_route_data http coords overview steps =
     (if coords = [] then ([], None)
      else
        let rq = \<lparr>mr_coords = coords, mr_overview = overview, mr_steps = steps\<rparr>
        in ([MapboxCall rq],
            case http rq of
              Json (r # _) \<Rightarrow> Some r
            | _ \<Rightarrow> None))"

section \<open>The routing solver adapter\<close>

definition INTEGER_SCALE_FACTOR :: pyfloat where
  "INTEGER_SCALE_FACTOR = Fin 1000"

definition MAX_ORTOOLS_COST :: int where
  "MAX_ORTOOLS_COST = 1000000000"

text \<open>One entry of \<open>scaled_cost_matrix\<close>.\<close>

definition scale_cost :: "pyfloat \<Rightarrow> error + int" where
  "scale_cost cost =
     (if cost \<noteq> PInf
      then py_int (py_min (Fin (of_int MAX_ORTOOLS_COST)) (fmul cost INTEGER_SCALE_FACTOR))
      else Inr MAX_ORTOOLS_COST)"

definition scaled_cost_matrix :: "pyfloat list list \<Rightarrow> error + int list list" where
  "scaled_cost_matrix cost_matrix = map_r (map_r scale_cost) cost_matrix"

text \<open>
  The arc costs the library sees through \<open>travel_cost_callback\<close>, which answers
  \<open>max(0, scaled_cost_matrix[from_node][to_node])\<close>.
\<close>

definition travel_cost_callback :: "int list list \<Rightarrow> int list list" where
  "travel_cost_callback scaled = map (map (max 0)) scaled"

definition matrix_get :: "'a list list \<Rightarrow> nat \<Rightarrow> nat \<Rightarrow> error + 'a" where
  "matrix_get m i j =
     (if i < length m \<and> j < length (m ! i) then Inr (m ! i ! j) else Inl IndexError)"

text \<open>
  The decoding loop \<open>while not routing.IsEnd(index)\<close>: \<open>current_node\<close> is the node at
  the index, the list holds the nodes that follow it, and the loop ends on the last one.
\<close>

fun decode_solution ::
  "pyfloat list list \<Rightarrow> nat \<Rightarrow> nat list \<Rightarrow> nat list \<Rightarrow> pyfloat
     \<Rightarrow> error + (nat list \<times> pyfloat)" where
  "decode_solution cost_matrix current_node [] indices cost_sum =
     Inr (indices @ [current_node], cost_sum)"
| "decode_solution cost_matrix current_node (next_node # rest) indices cost_sum =
     bind_r (matrix_get cost_matrix current_node next_node)
       (\<lambda>c. decode_solution cost_matrix next_node rest (indices @ [current_node])
              (fadd cost_sum c))"

record tsp_result =
  route_indices :: "nat list"
  total_cost :: pyfloat

definition solve_tsp_with_ortools ::
  "(int list list \<Rightarrow> nat \<Rightarrow> nat \<Rightarrow> nat \<Rightarrow> (nat \<times> nat list) option)
     \<Rightarrow> pyfloat list list \<Rightarrow> nat \<Rightarrow> nat \<Rightarrow> nat
     \<Rightarrow> event list \<times> (error + tsp_result option)" where
  "solve_tsp_with_ortools solver cost_matrix num_nodes start_depot_index end_depot_index =
     (case scaled_cost_matrix cost_matrix of
        Inl e \<Rightarrow> ([], Inl e)
      | Inr scaled \<Rightarrow>
          let arcs = travel_cost_callback scaled
          in ([SolverCall arcs num_nodes start_depot_index end_depot_index],
              case solver arcs num_nodes start_depot_index end_depot_index of
                None \<Rightarrow> Inr None
              | Some (first_node, rest) \<Rightarrow>
                  bind_r (decode_solution cost_matrix first_node rest [] (Fin 0))
                    (\<lambda>(indices, cost_sum).
                       Inr (Some \<lparr>route_indices = indices, total_cost = cost_sum\<rparr>))))"

section \<open>The estimate collector\<close>

text \<open>The warehouse of the request, or the default one.\<close>

definition warehouse_lat :: "config \<Rightarrow> OptimizeRouteRequest \<Rightarrow> coordinate" where
  "warehouse_lat cfg req =
     (case warehouse_latitude req of Some v \<Rightarrow> v | None \<Rightarrow> fst (WAREHOUSE_COORDS cfg))"

definition warehouse_lon :: "config \<Rightarrow> OptimizeRouteRequest \<Rightarrow> coordinate" where
  "warehouse_lon cfg req =
     (case warehouse_longitude req of Some v \<Rightarrow> v | None \<Rightarrow> snd (WAREHOUSE_COORDS cfg))"

definition current_location_point :: "OptimizeRouteRequest \<Rightarrow> point_detail" where
  "current_location_point req =
     \<lparr>pd_type = current_location, pd_id = ''current_location_0'',
      pd_latitude = current_latitude req, pd_longitude = current_longitude req,
      pd_weight = None\<rparr>"

definition order_point :: "OrderInput \<Rightarrow> point_detail" where
  "order_point ord =
     \<lparr>pd_type = order, pd_id = oi_id ord, pd_latitude = oi_latitude ord,
      pd_longitude = oi_longitude ord, pd_weight = Some (oi_weight ord)\<rparr>"

definition warehouse_point :: "config \<Rightarrow> OptimizeRouteRequest \<Rightarrow> point_detail" where
  "warehouse_point cfg req =
     \<lparr>pd_type = warehouse, pd_id = ''warehouse_final'',
      pd_latitude = warehouse_lat cfg req, pd_longitude = warehouse_lon cfg req,
      pd_weight = None\<rparr>"

text \<open>The current location, then the orders in input order, then the warehouse.\<close>

definition all_points_details :: "config \<Rightarrow> OptimizeRouteRequest \<Rightarrow> point_detail list" where
  "all_points_details cfg req =
     [current_location_point req] @ map order_point (orders req) @ [warehouse_point cfg req]"

text \<open>
  The cache key is the text \<open>start_lon,start_lat-end_lon,end_lat\<close>. Two floats print alike
  only when they are the same float (the two zeros print as \<open>0.0\<close> and \<open>-0.0\<close>, every NaN as
  \<open>nan\<close>), and a minus sign inside the text of a float stands first or right after the
  letter \<open>e\<close>, so the four coordinates can be read back from the key. The key is modelled
  as the four coordinates.
\<close>

type_synonym cache_key = "coordinate \<times> coordinate \<times> coordinate \<times> coordinate"

definition cache_key :: "point_detail \<Rightarrow> point_detail \<Rightarrow> cache_key" where
  "cache_key p q = (pd_longitude p, pd_latitude p, pd_longitude q, pd_latitude q)"

record segment_data =
  sd_distance :: pyfloat
  sd_duration :: pyfloat
  sd_mapbox_raw :: "route_data option"

record collect_state =
  all_segments_data_cache :: "cache_key \<rightharpoonup> segment_data"
  max_duration_for_normalization :: pyfloat
  max_distance_for_normalization :: pyfloat
  calls :: "event list"

definition SENTINEL :: pyfloat where
  "SENTINEL = Fin 1000000000"

text \<open>The guard before a value is stored in the cache.\<close>

definition sanitize :: "pyfloat \<Rightarrow> pyfloat" where
  "sanitize v = (if v = PInf \<or> isnan v \<or> flt v (Fin 0) then SENTINEL else v)"

text \<open>
  The duration of one pair before sanitisation: the provider's duration when no model is
  loaded or the prediction raises, else \<open>max(0.0, min(ml_predicted_duration, mapbox_duration))\<close>.
\<close>

definition pair_features ::
  "config \<Rightarrow> point_detail \<Rightarrow> point_detail \<Rightarrow> pyfloat \<Rightarrow> features" where
  "pair_features cfg p q shipping_distance =
     (let current_order_weight =
            (if pd_type q = order
             then (case pd_weight q of Some w \<Rightarrow> w | None \<Rightarrow> Fin 0) else Fin 0)
      in \<lparr>senderLat = pd_latitude p, senderLng = pd_longitude p,
          receiverLat = pd_latitude q, receiverLng = pd_longitude q,
          f_weight = current_order_weight,
          order_hour = current_hour cfg, order_day = current_day cfg,
          shippingDistance = shipping_distance\<rparr>)"

definition predicted_duration ::
  "config \<Rightarrow> point_detail \<Rightarrow> point_detail \<Rightarrow> pyfloat \<Rightarrow> pyfloat \<Rightarrow> event list \<times> pyfloat" where
  "predicted_duration cfg p q shipping_distance mapbox_duration =
     (case DELIVERY_MODEL cfg of
        None \<Rightarrow> ([], mapbox_duration)
      | Some model \<Rightarrow>
          let features_df = pair_features cfg p q shipping_distance
          in ([PredictCall features_df],
              case model features_df of
                Some ml_predicted_duration \<Rightarrow>
                  py_max (Fin 0) (py_min ml_predicted_duration mapbox_duration)
              | None \<Rightarrow> mapbox_duration))"

text \<open>The body of the first pass for the pair \<open>(i, j)\<close>.\<close>

definition pair_route_data ::
  "config \<Rightarrow> point_detail \<Rightarrow> point_detail \<Rightarrow> event list \<times> route_data option" where
  "pair_route_data cfg p q =
     get_mapbox_route_data (http_get cfg)
       [(pd_longitude p, pd_latitude p), (pd_longitude q, pd_latitude q)]
       ''simplified'' False"

text \<open>
  \<open>mapbox_data.get(key, float('inf')) if mapbox_data else float('inf')\<close>, for the keys
  \<open>distance\<close> and \<open>duration\<close>.
\<close>

definition distance_or_inf :: "route_data option \<Rightarrow> pyfloat" where
  "distance_or_inf mapbox_data =
     (case mapbox_data of None \<Rightarrow> PInf
      | Some d \<Rightarrow> (case rd_distance d of None \<Rightarrow> PInf | Some v \<Rightarrow> v))"

definition duration_or_inf :: "route_data option \<Rightarrow> pyfloat" where
  "duration_or_inf mapbox_data =
     (case mapbox_data of None \<Rightarrow> PInf
      | Some d \<Rightarrow> (case rd_duration d of None \<Rightarrow> PInf | Some v \<Rightarrow> v))"

definition collect_pair ::
  "config \<Rightarrow> point_detail list \<Rightarrow> nat \<Rightarrow> nat \<Rightarrow> collect_state \<Rightarrow> collect_state" where
  "collect_pair cfg pts i j st =
     (if i = j then st
      else
        let p = pts ! i; q = pts ! j;
            (ev1, mapbox_data) = pair_route_data cfg p q;
            shipping_distance = distance_or_inf mapbox_data;
            mapbox_duration = duration_or_inf mapbox_data;
            (ev2, duration) = predicted_duration cfg p q shipping_distance mapbox_duration;
            shipping_distance' = sanitize shipping_distance;
            duration' = sanitize duration
        in \<lparr>all_segments_data_cache =
              (all_segments_data_cache st)(cache_key p q \<mapsto>
                 \<lparr>sd_distance = shipping_distance', sd_duration = duration',
                  sd_mapbox_raw = mapbox_data\<rparr>),
            max_duration_for_normalization =
              py_max (max_duration_for_normalization st) duration',
            max_distance_for_normalization =
              py_max (max_distance_for_normalization st) shipping_distance',
            calls = calls st @ ev1 @ ev2\<rparr>)"

definition collect_init :: collect_state where
  "collect_init =
     \<lparr>all_segments_data_cache = Map.empty,
      max_duration_for_normalization = Fin 0,
      max_distance_for_normalization = Fin 0,
      calls = []\<rparr>"

text \<open>The first pass: both loops run over \<open>range(num_points)\<close>.\<close>

definition collect_estimates :: "config \<Rightarrow> point_detail list \<Rightarrow> collect_state" where
  "collect_estimates cfg pts =
     foldl (\<lambda>st i. foldl (\<lambda>st' j. collect_pair cfg pts i j st') st [0..<length pts])
       collect_init [0..<length pts]"

section \<open>The cost matrix builder\<close>

definition cost_entry ::
  "point_detail list \<Rightarrow> (cache_key \<rightharpoonup> segment_data) \<Rightarrow> pyfloat \<Rightarrow> pyfloat
     \<Rightarrow> pyfloat \<Rightarrow> pyfloat \<Rightarrow> nat \<Rightarrow> nat \<Rightarrow> error + pyfloat" where
  "cost_entry pts cache max_duration max_distance normalized_weight_time
       normalized_weight_distance i j =
     (if i = j then Inr (Fin 0)
      else
        case cache (cache_key (pts ! i) (pts ! j)) of
          Some segment \<Rightarrow>
            bind_r (fdiv (sd_distance segment) max_distance) (\<lambda>normalized_distance.
            bind_r (fdiv (sd_duration segment) max_duration) (\<lambda>normalized_duration.
              Inr (fadd (fmul normalized_weight_time normalized_duration)
                        (fmul normalized_weight_distance normalized_distance))))
        | None \<Rightarrow> Inr PInf)"

definition build_cost_matrix ::
  "point_detail list \<Rightarrow> (cache_key \<rightharpoonup> segment_data) \<Rightarrow> pyfloat \<Rightarrow> pyfloat
     \<Rightarrow> pyfloat \<Rightarrow> pyfloat \<Rightarrow> error + pyfloat list list" where
  "build_cost_matrix pts cache max_duration max_distance nwt nwd =
     map_r (\<lambda>i. map_r (cost_entry pts cache max_duration max_distance nwt nwd i)
                   [0..<length pts])
       [0..<length pts]"

section \<open>The route assembler\<close>

text \<open>
  The check on the solver's route and the fallback to the points in input order. Node
  numbers are natural numbers, so the lower bound of the range test on an index holds by
  type.
\<close>

definition checked_route_indices :: "nat \<Rightarrow> nat list \<Rightarrow> nat list" where
  "checked_route_indices num_points optimized_route_indices =
     (let depot_index = 0; warehouse_node_index = num_points - 1
      in if optimized_route_indices = [] \<or> hd optimized_route_indices \<noteq> depot_index
            \<or> last optimized_route_indices \<noteq> warehouse_node_index
         then [depot_index] @ [1..<num_points - 1] @ [warehouse_node_index]
         else optimized_route_indices)"

definition route_point :: "point_detail \<Rightarrow> RoutePoint" where
  "route_point p =
     \<lparr>rp_id = Some (pd_id p), rp_type = pd_type p,
      rp_latitude = pd_latitude p, rp_longitude = pd_longitude p\<rparr>"

text \<open>The points of the route; an index out of range is skipped.\<close>

definition optimized_route_points :: "point_detail list \<Rightarrow> nat list \<Rightarrow> RoutePoint list" where
  "optimized_route_points pts indices =
     map (\<lambda>idx. route_point (pts ! idx)) (filter (\<lambda>idx. idx < length pts) indices)"

definition segment_detail ::
  "point_detail \<Rightarrow> point_detail \<Rightarrow> pyfloat \<Rightarrow> pyfloat \<Rightarrow> RouteSegmentDetail" where
  "segment_detail p q duration distance =
     \<lparr>from_point_id = pd_id p, to_point_id = pd_id q,
      from_type = pd_type p, to_type = pd_type q,
      duration_seconds = duration, distance_meters = distance\<rparr>"

text \<open>
  The state of the summing loop: total distance, total time and the segments so far.
\<close>

type_synonym totals = "pyfloat \<times> pyfloat \<times> RouteSegmentDetail list"

text \<open>
  One turn of the loop over consecutive route indices. Reading \<open>all_points_details\<close> at an
  index beyond its end raises \<open>IndexError\<close>.
\<close>

definition segment_step ::
  "point_detail list \<Rightarrow> (cache_key \<rightharpoonup> segment_data) \<Rightarrow> nat \<Rightarrow> nat \<Rightarrow> totals
     \<Rightarrow> error + totals" where
  "segment_step pts cache from_idx to_idx acc =
     (case acc of (distance_sum, time_sum, segments) \<Rightarrow>
        if from_idx < length pts \<and> to_idx < length pts
        then
          let p = pts ! from_idx; q = pts ! to_idx
          in (case cache (cache_key p q) of
                Some segment \<Rightarrow>
                  if sd_distance segment \<noteq> PInf \<and> sd_duration segment \<noteq> PInf
                  then Inr (fadd distance_sum (sd_distance segment),
                            fadd time_sum (sd_duration segment),
                            segments @ [segment_detail p q (sd_duration segment)
                                          (sd_distance segment)])
                  else Inr (distance_sum, time_sum, segments @ [segment_detail p q PInf PInf])
              | None \<Rightarrow>
                  Inr (distance_sum, time_sum, segments @ [segment_detail p q PInf PInf]))
        else Inl IndexError)"

fun assemble_segments ::
  "point_detail list \<Rightarrow> (cache_key \<rightharpoonup> segment_data) \<Rightarrow> nat list \<Rightarrow> totals
     \<Rightarrow> error + totals" where
  "assemble_segments pts cache (from_idx # to_idx # rest) acc =
     bind_r (segment_step pts cache from_idx to_idx acc)
       (assemble_segments pts cache (to_idx # rest))"
| "assemble_segments pts cache _ acc = Inr acc"

section \<open>The endpoint\<close>

definition direct_route_response ::
  "config \<Rightarrow> OptimizeRouteRequest \<Rightarrow> OptimizedRouteResponse" where
  "direct_route_response cfg req =
     \<lparr>optimized_route =
        [\<lparr>rp_id = None, rp_type = current_location,
          rp_latitude = current_latitude req, rp_longitude = current_longitude req\<rparr>,
         \<lparr>rp_id = None, rp_type = warehouse,
          rp_latitude = warehouse_lat cfg req, rp_longitude = warehouse_lon cfg req\<rparr>],
      total_predicted_time_seconds = Fin 0,
      total_distance_meters = Fin 0,
      message = ''No orders provided or only current location and warehouse. Returning direct route to warehouse.'',
      segments_details = None,
      full_route_geometry = None,
      full_route_legs = None\<rparr>"

text \<open>
  The cost matrix of a request: the second pass, run on the cache and the two maxima of the
  first pass, each maximum floored at 1.
\<close>

definition cost_matrix_pass ::
  "point_detail list \<Rightarrow> collect_state \<Rightarrow> pyfloat \<Rightarrow> pyfloat
     \<Rightarrow> error + pyfloat list list" where
  "cost_matrix_pass pts st normalized_weight_time normalized_weight_distance =
     build_cost_matrix pts (all_segments_data_cache st)
       (py_max (Fin 1) (max_duration_for_normalization st))
       (py_max (Fin 1) (max_distance_for_normalization st))
       normalized_weight_time normalized_weight_distance"

text \<open>Step 7.4: the response for the route the solver adapter returned.\<close>

definition assemble_response ::
  "config \<Rightarrow> point_detail list \<Rightarrow> (cache_key \<rightharpoonup> segment_data) \<Rightarrow> nat list
     \<Rightarrow> event list \<times> (error + OptimizedRouteResponse)" where
  "assemble_response cfg pts cache optimized_route_indices =
     (let indices = checked_route_indices (length pts) optimized_route_indices;
          route = optimized_route_points pts indices;
          coords = map (\<lambda>r. (rp_longitude r, rp_latitude r)) route;
          (ev, full_route_mapbox_data) =
             (if 1 < length coords
              then get_mapbox_route_data (http_get cfg) coords ''full'' True
              else ([], None))
      in (ev,
          bind_r (assemble_segments pts cache indices (Fin 0, Fin 0, []))
            (\<lambda>(distance_sum, time_sum, segments).
               Inr \<lparr>optimized_route = route,
                    total_predicted_time_seconds = time_sum,
                    total_distance_meters = distance_sum,
                    message = ''Route optimized successfully.'',
                    segments_details = Some segments,
                    full_route_geometry =
                      (case full_route_mapbox_data of None \<Rightarrow> None
                       | Some d \<Rightarrow> rd_geometry d),
                    full_route_legs =
                      (case full_route_mapbox_data of None \<Rightarrow> None
                       | Some d \<Rightarrow> rd_legs d)\<rparr>)))"

text \<open>
  Steps 7.2 to 7.4 of the endpoint, once the weights are normalised: collect, build the
  matrix, solve, assemble.
\<close>

definition optimize_with_weights ::
  "config \<Rightarrow> point_detail list \<Rightarrow> pyfloat \<Rightarrow> pyfloat
     \<Rightarrow> event list \<times> (error + OptimizedRouteResponse)" where
  "optimize_with_weights cfg pts normalized_weight_time normalized_weight_distance =
     (let num_points = length pts;
          st = collect_estimates cfg pts
      in case cost_matrix_pass pts st normalized_weight_time normalized_weight_distance of
           Inl e \<Rightarrow> (calls st, Inl e)
         | Inr cost_matrix \<Rightarrow>
             (case solve_tsp_with_ortools (ortools cfg) cost_matrix num_points 0
                     (num_points - 1) of
                (ev, Inl e) \<Rightarrow> (calls st @ ev, Inl e)
              | (ev, Inr None) \<Rightarrow>
                  (calls st @ ev,
                   Inl (HTTPException 500 ''Failed to find an optimal route with OR-Tools.''))
              | (ev, Inr (Some ortools_result)) \<Rightarrow>
                  (case assemble_response cfg pts (all_segments_data_cache st)
                          (route_indices ortools_result) of
                     (ev', r) \<Rightarrow> (calls st @ ev @ ev', r))))"

text \<open>
  The sum of the two weights and the two weights divided by it, as the endpoint computes
  them in floats.
\<close>

definition total_weights :: "OptimizeRouteRequest \<Rightarrow> pyfloat" where
  "total_weights req = fadd (Fin (weight_time req)) (Fin (weight_distance req))"

definition normalized_weight_time :: "OptimizeRouteRequest \<Rightarrow> error + pyfloat" where
  "normalized_weight_time req = fdiv (Fin (weight_time req)) (total_weights req)"

definition normalized_weight_distance :: "OptimizeRouteRequest \<Rightarrow> error + pyfloat" where
  "normalized_weight_distance req = fdiv (Fin (weight_distance req)) (total_weights req)"

definition optimize_delivery_route ::
  "config \<Rightarrow> OptimizeRouteRequest \<Rightarrow> event list \<times> (error + OptimizedRouteResponse)" where
  "optimize_delivery_route cfg req =
     (let pts = all_points_details cfg req;
          num_points = length pts
      in if num_points \<le> 1 then ([], Inr (direct_route_response cfg req))
         else if total_weights req = Fin 0
         then ([], Inl (HTTPException 400
                          ''Total weights for time and distance cannot be zero.''))
         else
           case normalized_weight_time req of
             Inl e \<Rightarrow> ([], Inl e)
           | Inr nwt \<Rightarrow>
               (case normalized_weight_distance req of
                  Inl e \<Rightarrow> ([], Inl e)
                | Inr nwd \<Rightarrow> optimize_with_weights cfg pts nwt nwd))"

section \<open>Notions used to state the properties\<close>

text \<open>
  The cost of a path as the specification words it: the sum of the unscaled matrix entries
  over the consecutive pairs of the route.
\<close>

definition path_cost :: "pyfloat list list \<Rightarrow> nat list \<Rightarrow> pyfloat" where
  "path_cost cost_matrix route =
     foldl fadd (Fin 0) (map (\<lambda>(a, b). cost_matrix ! a ! b) (zip route (tl route)))"

text \<open>The objective the routing library minimises: the same sum over the scaled arcs.\<close>

definition scaled_objective :: "int list list \<Rightarrow> nat list \<Rightarrow> int" where
  "scaled_objective arcs route =
     sum_list (map (\<lambda>(a, b). arcs ! a ! b) (zip route (tl route)))"

text \<open>A finite value that is not negative.\<close>

definition finite_nonneg :: "pyfloat \<Rightarrow> bool" where
  "finite_nonneg v = (case v of Fin r \<Rightarrow> 0 \<le> r | _ \<Rightarrow> False)"

text \<open>A finite non-negative value that the maximum \<open>m\<close> is not below.\<close>

definition bounded_by :: "pyfloat \<Rightarrow> pyfloat \<Rightarrow> bool" where
  "bounded_by v m = (finite_nonneg v \<and> \<not> flt m v)"

text \<open>
  The distance and the duration the first pass stores for a pair of points: the sanitised
  provider distance and the sanitised resolved duration.
\<close>

definition pair_distance :: "config \<Rightarrow> point_detail \<Rightarrow> point_detail \<Rightarrow> pyfloat" where
  "pair_distance cfg p q = sanitize (distance_or_inf (snd (pair_route_data cfg p q)))"

definition pair_duration :: "config \<Rightarrow> point_detail \<Rightarrow> point_detail \<Rightarrow> pyfloat" where
  "pair_duration cfg p q =
     (let mapbox_data = snd (pair_route_data cfg p q)
      in sanitize (snd (predicted_duration cfg p q (distance_or_inf mapbox_data)
                          (duration_or_inf mapbox_data))))"

text \<open>
  The invariant of the first pass: both running maxima are finite and non-negative, and
  every cached value is finite, non-negative and at most the maximum of its dimension.
\<close>

definition collect_inv :: "collect_state \<Rightarrow> bool" where
  "collect_inv st =
     (finite_nonneg (max_distance_for_normalization st) \<and>
      finite_nonneg (max_duration_for_normalization st) \<and>
      (\<forall>k segment. all_segments_data_cache st k = Some segment \<longrightarrow>
         bounded_by (sd_distance segment) (max_distance_for_normalization st) \<and>
         bounded_by (sd_duration segment) (max_duration_for_normalization st)))"

text \<open>A finite value in \<open>[0, 1]\<close>.\<close>

definition unit_interval :: "pyfloat \<Rightarrow> bool" where
  "unit_interval v = (case v of Fin r \<Rightarrow> 0 \<le> r \<and> r \<le> 1 | _ \<Rightarrow> False)"

text \<open>Every cache entry was stored by the first pass for some pair of distinct points.\<close>

definition written_by :: "config \<Rightarrow> point_detail list \<Rightarrow> collect_state \<Rightarrow> bool" where
  "written_by cfg pts st =
     (\<forall>k segment. all_segments_data_cache st k = Some segment \<longrightarrow>
        (\<exists>i j. i < length pts \<and> j < length pts \<and> i \<noteq> j \<and>
               k = cache_key (pts ! i) (pts ! j) \<and>
               sd_distance segment = pair_distance cfg (pts ! i) (pts ! j) \<and>
               sd_duration segment = pair_duration cfg (pts ! i) (pts ! j)))"

text \<open>The first pass and the cost matrix of a request.\<close>

definition request_estimates :: "config \<Rightarrow> OptimizeRouteRequest \<Rightarrow> collect_state" where
  "request_estimates cfg req = collect_estimates cfg (all_points_details cfg req)"

definition request_cost_matrix ::
  "config \<Rightarrow> OptimizeRouteRequest \<Rightarrow> error + pyfloat list list" where
  "request_cost_matrix cfg req =
     bind_r (normalized_weight_time req) (\<lambda>nwt.
     bind_r (normalized_weight_distance req) (\<lambda>nwd.
       cost_matrix_pass (all_points_details cfg req) (request_estimates cfg req) nwt nwd))"

text \<open>
  What the routing library promises for a problem whose nodes are all mandatory: the path it
  answers with visits every node exactly once.
\<close>

definition visits_every_node_once ::
  "(int list list \<Rightarrow> nat \<Rightarrow> nat \<Rightarrow> nat \<Rightarrow> (nat \<times> nat list) option) \<Rightarrow> bool" where
  "visits_every_node_once solver =
     (\<forall>arcs n s e a rest. solver arcs n s e = Some (a, rest) \<longrightarrow>
        distinct (a # rest) \<and> set (a # rest) = {0..<n})"

text \<open>
  The arc costs the endpoint hands to the routing library for a request, and the path the
  library answers with.
\<close>

definition request_arcs :: "config \<Rightarrow> OptimizeRouteRequest \<Rightarrow> error + int list list" where
  "request_arcs cfg req =
     bind_r (request_cost_matrix cfg req) (\<lambda>cost_matrix.
     bind_r (scaled_cost_matrix cost_matrix) (\<lambda>scaled. Inr (travel_cost_callback scaled)))"

definition solver_answer :: "config \<Rightarrow> OptimizeRouteRequest \<Rightarrow> (nat \<times> nat list) option" where
  "solver_answer cfg req =
     (let num_points = length (all_points_details cfg req)
      in case request_arcs cfg req of
           Inl e \<Rightarrow> None
         | Inr arcs \<Rightarrow> ortools cfg arcs num_points 0 (num_points - 1))"

section \<open>Example inputs\<close>

text \<open>A provider that answers every call with a route of 100 metres and 10 seconds.\<close>

definition short_route :: route_data where
  "short_route =
     \<lparr>rd_distance = Some (Fin 100), rd_duration = Some (Fin 10),
      rd_geometry = None, rd_legs = None\<rparr>"

definition answering_http :: "mapbox_request \<Rightarrow> http_outcome" where
  "answering_http rq = Json [short_route]"

text \<open>A provider whose every call times out.\<close>

definition failing_http :: "mapbox_request \<Rightarrow> http_outcome" where
  "failing_http rq = Timeout"

text \<open>
  A routing library that answers with the nodes in increasing order, which is a path
  through every node from node 0 to the last node.
\<close>

definition in_order_solver ::
  "int list list \<Rightarrow> nat \<Rightarrow> nat \<Rightarrow> nat \<Rightarrow> (nat \<times> nat list) option" where
  "in_order_solver arcs num_nodes start_index end_index =
     (if num_nodes = 0 then None else Some (0, [1..<num_nodes]))"

text \<open>
  A routing library gone wrong: it answers with the nodes in decreasing order, a path
  through every node that starts at the last node and ends at node 0.
\<close>

definition reversing_solver ::
  "int list list \<Rightarrow> nat \<Rightarrow> nat \<Rightarrow> nat \<Rightarrow> (nat \<times> nat list) option" where
  "reversing_solver arcs num_nodes start_index end_index =
     (if num_nodes = 0 then None else Some (num_nodes - 1, rev [0..<num_nodes - 1]))"

definition example_config :: config where
  "example_config =
     \<lparr>http_get = answering_http, DELIVERY_MODEL = None, ortools = in_order_solver,
      current_hour = 9, current_day = 2,
      WAREHOUSE_COORDS = (Degrees (Fin 10), Degrees (Fin 106))\<rparr>"

definition reversing_config :: config where
  "reversing_config = example_config\<lparr>ortools := reversing_solver\<rparr>"

text \<open>The same service while the provider is down.\<close>

definition failing_config :: config where
  "failing_config = example_config\<lparr>http_get := failing_http\<rparr>"

definition one_order :: OrderInput where
  "one_order =
     \<lparr>oi_id = ''A'', oi_latitude = Degrees (Fin 3), oi_longitude = Degrees (Fin 4),
      oi_weight = Fin 2\<rparr>"

definition example_request :: OptimizeRouteRequest where
  "example_request =
     \<lparr>orders = [one_order], warehouse_latitude = None, warehouse_longitude = None,
      current_latitude = Degrees (Fin 1), current_longitude = Degrees (Fin 2),
      weight_time = 1 / 2, weight_distance = 1 / 2\<rparr>"

definition zero_weight_request :: OptimizeRouteRequest where
  "zero_weight_request = example_request\<lparr>weight_time := 0, weight_distance := 0\<rparr>"

text \<open>A request without orders.\<close>

definition no_orders_request :: OptimizeRouteRequest where
  "no_orders_request = example_request\<lparr>orders := []\<rparr>"

text \<open>
  The request with the weights \<open>0.03\<close> and \<open>0.29\<close>, that is, with the two floats nearest
  to them.
\<close>

definition skewed_request :: OptimizeRouteRequest where
  "skewed_request =
     example_request\<lparr>weight_time := 1080863910568919 / 36028797018963968,
                     weight_distance := 5224175567749775 / 18014398509481984\<rparr>"

definition example_points :: "point_detail list" where
  "example_points = all_points_details example_config example_request"

text \<open>A loaded model that predicts \<open>-5\<close> seconds for every pair.\<close>

definition negative_model :: "features \<Rightarrow> pyfloat option" where
  "negative_model f = Some (Fin (- 5))"

definition predicting_config :: config where
  "predicting_config = example_config\<lparr>DELIVERY_MODEL := Some negative_model\<rparr>"

text \<open>
  A loaded model that predicts 7 seconds for every pair, in a service whose provider is
  down.
\<close>

definition steady_model :: "features \<Rightarrow> pyfloat option" where
  "steady_model f = Some (Fin 7)"

definition offline_predicting_config :: config where
  "offline_predicting_config = failing_config\<lparr>DELIVERY_MODEL := Some steady_model\<rparr>"

text \<open>A cost matrix on three nodes whose entries are lost by the scaling to integers.\<close>

definition small_costs :: "pyfloat list list" where
  "small_costs =
     [[Fin 0, Fin (1 / 4096), Fin (1 / 2)],
      [Fin (1 / 4096), Fin 0, Fin (1 / 4096)],
      [Fin (1 / 2), Fin (1 / 4096), Fin 0]]"

definition small_costs_result :: tsp_result where
  "small_costs_result = \<lparr>route_indices = [0, 1, 2], total_cost = Fin (1 / 2048)\<rparr>"

text \<open>The three points of the example request as they appear in a response.\<close>

definition here :: RoutePoint where
  "here =
     \<lparr>rp_id = Some ''current_location_0'', rp_type = current_location,
      rp_latitude = Degrees (Fin 1), rp_longitude = Degrees (Fin 2)\<rparr>"

definition stop_A :: RoutePoint where
  "stop_A =
     \<lparr>rp_id = Some ''A'', rp_type = order,
      rp_latitude = Degrees (Fin 3), rp_longitude = Degrees (Fin 4)\<rparr>"

definition depot :: RoutePoint where
  "depot =
     \<lparr>rp_id = Some ''warehouse_final'', rp_type = warehouse,
      rp_latitude = Degrees (Fin 10), rp_longitude = Degrees (Fin 106)\<rparr>"

text \<open>
  A response for the route current location, order A, warehouse, in which both segments
  have the duration \<open>t\<close> and the distance \<open>d\<close> and the totals are \<open>tt\<close> and \<open>dd\<close>.
\<close>

definition response_through_A ::
  "pyfloat \<Rightarrow> pyfloat \<Rightarrow> pyfloat \<Rightarrow> pyfloat \<Rightarrow> OptimizedRouteResponse" where
  "response_through_A t d tt dd =
     \<lparr>optimized_route = [here, stop_A, depot],
      total_predicted_time_seconds = tt,
      total_distance_meters = dd,
      message = ''Route optimized successfully.'',
      segments_details =
        Some [\<lparr>from_point_id = ''current_location_0'', to_point_id = ''A'',
                from_type = current_location, to_type = order,
                duration_seconds = t, distance_meters = d\<rparr>,
              \<lparr>from_point_id = ''A'', to_point_id = ''warehouse_final'',
                from_type = order, to_type = warehouse,
                duration_seconds = t, distance_meters = d\<rparr>],
      full_route_geometry = None,
      full_route_legs = None\<rparr>"

text \<open>The response to the request without orders when the provider answers.\<close>

definition no_orders_response :: OptimizedRouteResponse where
  "no_orders_response =
     \<lparr>optimized_route = [here, depot],
      total_predicted_time_seconds = Fin 10,
      total_distance_meters = Fin 100,
      message = ''Route optimized successfully.'',
      segments_details =
        Some [\<lparr>from_point_id = ''current_location_0'', to_point_id = ''warehouse_final'',
                from_type = current_location, to_type = warehouse,
                duration_seconds = Fin 10, distance_meters = Fin 100\<rparr>],
      full_route_geometry = None,
      full_route_legs = None\<rparr>"

section \<open>Auxiliary facts\<close>

lemma bind_r_Inr: "bind_r m f = Inr y \<longleftrightarrow> (\<exists>x. m = Inr x \<and> f x = Inr y)"
  by (cases m) (simp_all add: bind_r_def)

lemma bind_r_simps [simp]:
  "bind_r (Inr x) f = f x"
  "bind_r (Inl e) f = Inl e"
  by (simp_all add: bind_r_def)

lemma upt_3: "[0..<3] = [0, Suc 0, 2]" "[Suc 0..<3] = [Suc 0, 2]" "[Suc 0..<2] = [Suc 0]"
  "[0..<2] = [0, Suc 0]"
  by (simp_all add: upt_rec)

lemma length_all_points: "length (all_points_details cfg req) = length (orders req) + 2"
  by (simp add: all_points_details_def)

section \<open>Rounding to a float\<close>

lemma rhe_int [simp]: "round_half_even (of_int k) = k"
  by (simp add: round_half_even_def)

lemma rhe_cases: "round_half_even x = \<lfloor>x\<rfloor> \<or> round_half_even x = \<lfloor>x\<rfloor> + 1"
  by (simp add: round_half_even_def Let_def)

lemma rhe_lower: "of_int (round_half_even x) \<ge> x - 1 / 2"
  unfolding round_half_even_def Let_def by (auto; linarith)

lemma rhe_upper: "of_int (round_half_even x) \<le> x + 1 / 2"
  unfolding round_half_even_def Let_def by (auto; linarith)

lemma rhe_mono: assumes "x \<le> y" shows "round_half_even x \<le> round_half_even y"
proof -
  from assms have fl: "\<lfloor>x\<rfloor> \<le> \<lfloor>y\<rfloor>" by (rule floor_mono)
  show ?thesis
  proof (cases "\<lfloor>x\<rfloor> = \<lfloor>y\<rfloor>")
    case True
    with assms show ?thesis
      unfolding round_half_even_def Let_def by (auto; linarith)
  next
    case False
    with fl have "\<lfloor>x\<rfloor> + 1 \<le> \<lfloor>y\<rfloor>" by simp
    moreover have "round_half_even x \<le> \<lfloor>x\<rfloor> + 1" using rhe_cases[of x] by auto
    moreover have "\<lfloor>y\<rfloor> \<le> round_half_even y" using rhe_cases[of y] by auto
    ultimately show ?thesis by linarith
  qed
qed

lemma rhe_minus: "round_half_even (- x) = - round_half_even x"
proof (cases "x = of_int \<lfloor>x\<rfloor>")
  case True
  then obtain k where "x = of_int k" ..
  then have "- x = of_int (- k)" by simp
  then show ?thesis unfolding \<open>x = of_int k\<close> by (metis rhe_int)
next
  case False
  then have lt: "of_int \<lfloor>x\<rfloor> < x" using of_int_floor_le[of x] by linarith
  have ub: "x < of_int \<lfloor>x\<rfloor> + 1" by linarith
  have fm: "\<lfloor>- x\<rfloor> = - \<lfloor>x\<rfloor> - 1"
    using lt by (intro floor_unique; simp; linarith)
  show ?thesis
    unfolding round_half_even_def Let_def fm using lt
    by (auto; linarith?)
qed

lemma rhe_zero [simp]: "round_half_even 0 = 0"
  using rhe_int[of 0] by simp

lemma rhe_pow2 [simp]: "round_half_even (2 ^ n) = 2 ^ n"
  using rhe_int[of "2 ^ n"] by simp

lemma binade_bounds:
  assumes "x \<noteq> 0"
  shows "2 powr of_int \<lfloor>log 2 \<bar>x\<bar>\<rfloor> \<le> \<bar>x\<bar>"
    and "\<bar>x\<bar> < 2 powr (of_int \<lfloor>log 2 \<bar>x\<bar>\<rfloor> + 1)"
proof -
  have pos: "0 < \<bar>x\<bar>" using assms by simp
  have "2 powr of_int \<lfloor>log 2 \<bar>x\<bar>\<rfloor> \<le> 2 powr log 2 \<bar>x\<bar>"
    by (subst powr_le_cancel_iff) simp_all
  also have "\<dots> = \<bar>x\<bar>" using pos by simp
  finally show "2 powr of_int \<lfloor>log 2 \<bar>x\<bar>\<rfloor> \<le> \<bar>x\<bar>" .
  have "\<bar>x\<bar> = 2 powr log 2 \<bar>x\<bar>" using pos by simp
  also have "\<dots> < 2 powr (of_int \<lfloor>log 2 \<bar>x\<bar>\<rfloor> + 1)"
    by (subst powr_less_cancel_iff) simp_all
  finally show "\<bar>x\<bar> < 2 powr (of_int \<lfloor>log 2 \<bar>x\<bar>\<rfloor> + 1)" .
qed

lemma ulp_exponent_minus [simp]: "ulp_exponent (- x) = ulp_exponent x"
  by (simp add: ulp_exponent_def)

lemma ulp_exponent_ge: "- 1074 \<le> ulp_exponent x"
  by (simp add: ulp_exponent_def)

lemma round_double_0 [simp]: "round_double 0 = 0"
  by (simp add: round_double_def)

lemma round_double_minus: "round_double (- x) = - round_double x"
  by (simp add: round_double_def rhe_minus)

lemma scaled_less:
  assumes "x \<noteq> 0"
  shows "\<bar>x\<bar> / 2 powr of_int (ulp_exponent x) < 2 ^ 53"
proof -
  let ?k = "\<lfloor>log 2 \<bar>x\<bar>\<rfloor>"
  have "of_int ?k + 1 \<le> of_int (ulp_exponent x) + (53 :: real)"
    by (simp add: ulp_exponent_def)
  then have "2 powr (of_int ?k + 1) \<le> 2 powr (of_int (ulp_exponent x) + (53 :: real))"
    by (subst powr_le_cancel_iff) simp_all
  with binade_bounds(2)[OF assms]
  have "\<bar>x\<bar> < 2 powr (of_int (ulp_exponent x) + (53 :: real))" by linarith
  also have "\<dots> = 2 powr of_int (ulp_exponent x) * 2 ^ 53"
    by (simp add: powr_add)
  finally show ?thesis by (simp add: field_simps)
qed

lemma scaled_ge:
  assumes "x \<noteq> 0" "- 1022 \<le> \<lfloor>log 2 \<bar>x\<bar>\<rfloor>"
  shows "2 ^ 52 \<le> \<bar>x\<bar> / 2 powr of_int (ulp_exponent x)"
proof -
  let ?k = "\<lfloor>log 2 \<bar>x\<bar>\<rfloor>"
  from assms(2) have e: "of_int (ulp_exponent x) = of_int ?k - (52 :: real)"
    by (simp add: ulp_exponent_def)
  have "2 powr of_int (ulp_exponent x) * 2 ^ 52 = (2 :: real) powr of_int ?k"
    unfolding e by (simp add: powr_diff)
  also have "\<dots> \<le> \<bar>x\<bar>" using binade_bounds(1)[OF assms(1)] by simp
  finally show ?thesis by (simp add: field_simps)
qed

lemma round_double_nonneg: "0 \<le> x \<Longrightarrow> 0 \<le> round_double x"
proof -
  assume "0 \<le> x"
  then have "0 \<le> x / 2 powr of_int (ulp_exponent x)" by simp
  from rhe_mono[OF this] have "0 \<le> round_half_even (x / 2 powr of_int (ulp_exponent x))"
    by simp
  then show ?thesis by (simp add: round_double_def)
qed

lemma rhe_abs_le:
  assumes "\<bar>x\<bar> \<le> 2 ^ n"
  shows "\<bar>round_half_even x\<bar> \<le> 2 ^ n"
proof -
  from assms have "x \<le> 2 ^ n" "- (2 ^ n) \<le> x" by linarith+
  from rhe_mono[OF this(1)] rhe_mono[OF this(2)]
  have "round_half_even x \<le> 2 ^ n" "- (2 ^ n) \<le> round_half_even x"
    by (simp_all add: rhe_minus)
  then show ?thesis by linarith
qed

lemma round_double_mono_pos:
  assumes "0 < x" "x \<le> y"
  shows "round_double x \<le> round_double y"
proof -
  let ?kx = "\<lfloor>log 2 \<bar>x\<bar>\<rfloor>" and ?ky = "\<lfloor>log 2 \<bar>y\<bar>\<rfloor>"
  let ?ux = "2 powr real_of_int (ulp_exponent x)" and ?uy = "2 powr real_of_int (ulp_exponent y)"
  from assms have y: "0 < y" by linarith
  from assms y have "log 2 \<bar>x\<bar> \<le> log 2 \<bar>y\<bar>" by simp
  then have k: "?kx \<le> ?ky" by (rule floor_mono)
  then have E: "ulp_exponent x \<le> ulp_exponent y" by (simp add: ulp_exponent_def)
  have rx: "round_double x = of_int (round_half_even (x / ?ux)) * ?ux"
    and ry: "round_double y = of_int (round_half_even (y / ?uy)) * ?uy"
    using assms y by (simp_all add: round_double_def)
  show ?thesis
  proof (cases "ulp_exponent x = ulp_exponent y")
    case True
    from assms have "x / ?uy \<le> y / ?uy" by (simp add: divide_right_mono)
    from rhe_mono[OF this]
    have "real_of_int (round_half_even (x / ?uy)) * ?uy
            \<le> real_of_int (round_half_even (y / ?uy)) * ?uy"
      by (intro mult_right_mono) simp_all
    then show ?thesis by (simp add: rx ry True)
  next
    case False
    with E have lt: "ulp_exponent x + 1 \<le> ulp_exponent y" by simp
    have "- 1074 \<le> ulp_exponent x" by (rule ulp_exponent_ge)
    with lt have ky: "- 1022 \<le> ?ky" by (simp add: ulp_exponent_def max_def split: if_splits)
    from scaled_ge[OF _ ky] y have "2 ^ 52 \<le> y / ?uy" by simp
    from rhe_mono[OF this] have "(2 :: int) ^ 52 \<le> round_half_even (y / ?uy)"
      by (simp only: rhe_pow2)
    then have "real_of_int (2 ^ 52) \<le> of_int (round_half_even (y / ?uy))"
      by (simp only: of_int_le_iff)
    then have "(2 :: real) ^ 52 \<le> of_int (round_half_even (y / ?uy))"
      by (simp only: of_int_power of_int_numeral)
    then have "2 ^ 52 * ?uy \<le> of_int (round_half_even (y / ?uy)) * ?uy"
      by (intro mult_right_mono) simp_all
    then have lower: "2 ^ 52 * ?uy \<le> round_double y" by (simp add: ry)
    from scaled_less[of x] assms have "x / ?ux \<le> 2 ^ 53" by simp
    from rhe_mono[OF this] have "round_half_even (x / ?ux) \<le> (2 :: int) ^ 53"
      by (simp only: rhe_pow2)
    then have "of_int (round_half_even (x / ?ux)) \<le> real_of_int (2 ^ 53)"
      by (simp only: of_int_le_iff)
    then have "of_int (round_half_even (x / ?ux)) \<le> (2 :: real) ^ 53"
      by (simp only: of_int_power of_int_numeral)
    then have "of_int (round_half_even (x / ?ux)) * ?ux \<le> 2 ^ 53 * ?ux"
      by (intro mult_right_mono) simp_all
    then have upper: "round_double x \<le> 2 ^ 53 * ?ux" by (simp add: rx)
    from lt have "real_of_int (ulp_exponent x) + 1 \<le> real_of_int (ulp_exponent y)"
      by linarith
    then have "2 powr (real_of_int (ulp_exponent x) + 1) \<le> ?uy"
      by (subst powr_le_cancel_iff) simp_all
    then have "2 * ?ux \<le> ?uy" by (simp add: powr_add)
    then have "2 ^ 53 * ?ux \<le> 2 ^ 52 * ?uy" by simp
    with lower upper show ?thesis by linarith
  qed
qed

lemma round_double_mono:
  assumes "x \<le> y"
  shows "round_double x \<le> round_double y"
proof -
  consider "0 < x" | "y < 0" | "x \<le> 0" "0 \<le> y" by linarith
  then show ?thesis
  proof cases
    case 1
    from this assms show ?thesis by (rule round_double_mono_pos)
  next
    case 2
    with assms have "0 < - y" "- y \<le> - x" by simp_all
    from round_double_mono_pos[OF this] show ?thesis by (simp add: round_double_minus)
  next
    case 3
    from 3(1) have "0 \<le> round_double (- x)" by (intro round_double_nonneg) simp
    then have "round_double x \<le> 0" by (simp add: round_double_minus)
    moreover from 3(2) have "0 \<le> round_double y" by (rule round_double_nonneg)
    ultimately show ?thesis by linarith
  qed
qed

lemma abs_times_pos: "0 < u \<Longrightarrow> a * u = b \<Longrightarrow> \<bar>a\<bar> * u = \<bar>b :: real\<bar>"
  by (auto simp: abs_mult)

lemma powr_int_nonneg: "0 \<le> k \<Longrightarrow> (2 :: real) powr real_of_int k = 2 ^ nat k"
  by (simp add: powr_real_of_int)

lemma round_double_representable:
  assumes m: "\<bar>m\<bar> < 2 ^ 53" and e: "- 1074 \<le> e"
  shows "round_double (of_int m * 2 powr of_int e) = of_int m * 2 powr of_int e"
proof (cases "m = 0")
  case True
  then show ?thesis by simp
next
  case False
  let ?x = "real_of_int m * 2 powr real_of_int e"
  define E where "E = ulp_exponent ?x"
  have x0: "?x \<noteq> 0" using False by simp
  have "\<bar>?x\<bar> = real_of_int \<bar>m\<bar> * 2 powr real_of_int e" by (simp add: abs_mult)
  also have "\<dots> < 2 ^ 53 * 2 powr real_of_int e"
    using m by (intro mult_strict_right_mono) (simp_all add: of_int_less_numeral_power_cancel_iff)
  also have "\<dots> = 2 powr (real_of_int e + 53)" by (simp add: powr_add)
  finally have "\<bar>?x\<bar> < 2 powr (real_of_int e + 53)" .
  with binade_bounds(1)[OF x0]
  have "2 powr real_of_int \<lfloor>log 2 \<bar>?x\<bar>\<rfloor> < 2 powr (real_of_int e + 53)" by linarith
  then have "real_of_int \<lfloor>log 2 \<bar>?x\<bar>\<rfloor> < real_of_int e + 53" by simp
  then have "\<lfloor>log 2 \<bar>?x\<bar>\<rfloor> < e + 53" by linarith
  with e have E: "E \<le> e" by (simp add: ulp_exponent_def E_def)
  then have "2 powr real_of_int (e - E) = 2 ^ nat (e - E)"
    by (intro powr_int_nonneg) simp
  then have split: "2 powr real_of_int e = 2 ^ nat (e - E) * 2 powr real_of_int E"
    by (simp add: powr_diff field_simps)
  have "?x / 2 powr real_of_int E = real_of_int (m * 2 ^ nat (e - E))"
    unfolding split by simp
  then have "round_half_even (?x / 2 powr real_of_int E) = m * 2 ^ nat (e - E)"
    by (simp only: rhe_int)
  then have "round_double ?x = real_of_int (m * 2 ^ nat (e - E)) * 2 powr real_of_int E"
    using x0 unfolding E_def by (simp only: round_double_def if_False)
  also have "\<dots> = ?x" unfolding split by simp
  finally show ?thesis .
qed

lemma round_double_idem: "round_double (round_double x) = round_double x"
proof (cases "x = 0")
  case True
  then show ?thesis by simp
next
  case False
  let ?E = "ulp_exponent x"
  let ?n = "round_half_even (x / 2 powr real_of_int ?E)"
  have rd: "round_double x = real_of_int ?n * 2 powr real_of_int ?E"
    using False by (simp add: round_double_def)
  from scaled_less[OF False] have "\<bar>x / 2 powr real_of_int ?E\<bar> \<le> 2 ^ 53" by simp
  from rhe_abs_le[OF this] have n: "\<bar>?n\<bar> \<le> 2 ^ 53" .
  show ?thesis
  proof (cases "\<bar>?n\<bar> < 2 ^ 53")
    case True
    from round_double_representable[OF True ulp_exponent_ge[of x]] show ?thesis
      by (simp add: rd)
  next
    case False
    with n have "\<bar>?n\<bar> = 2 ^ 53" by linarith
    then consider "?n = 2 ^ 53" | "?n = - (2 ^ 53)" by linarith
    then obtain m :: int where mm: "\<bar>m\<bar> < 2 ^ 53" "?n = 2 * m"
    proof cases
      case 1
      then have "\<bar>2 ^ 52 :: int\<bar> < 2 ^ 53" "?n = 2 * 2 ^ 52" by simp_all
      then show ?thesis by (rule that)
    next
      case 2
      then have "\<bar>- (2 ^ 52) :: int\<bar> < 2 ^ 53" "?n = 2 * (- (2 ^ 52))" by simp_all
      then show ?thesis by (rule that)
    qed
    have "- 1074 \<le> ?E + 1" using ulp_exponent_ge[of x] by linarith
    from round_double_representable[OF mm(1) this]
    have "round_double (real_of_int m * 2 powr real_of_int (?E + 1))
            = real_of_int m * 2 powr real_of_int (?E + 1)" .
    moreover have "real_of_int m * 2 powr real_of_int (?E + 1) = round_double x"
      by (simp add: rd mm(2) powr_add)
    ultimately show ?thesis by simp
  qed
qed

lemma round_double_1 [simp]: "round_double 1 = 1"
  using round_double_representable[of 1 0] by simp

lemma round_double_error:
  "\<bar>round_double x - x\<bar> \<le> \<bar>x\<bar> / 2 ^ 53 + 2 powr (- 1075)"
proof (cases "x = 0")
  case True
  then show ?thesis by simp
next
  case False
  let ?E = "ulp_exponent x"
  let ?u = "2 powr real_of_int ?E"
  let ?n = "round_half_even (x / ?u)"
  have rd: "round_double x = real_of_int ?n * ?u"
    using False by (simp add: round_double_def)
  have "\<bar>real_of_int ?n - x / ?u\<bar> \<le> 1 / 2"
    using rhe_lower[of "x / ?u"] rhe_upper[of "x / ?u"] by linarith
  then have "\<bar>real_of_int ?n - x / ?u\<bar> * ?u \<le> 1 / 2 * ?u"
    by (intro mult_right_mono) simp_all
  moreover have "(real_of_int ?n - x / ?u) * ?u = round_double x - x"
    unfolding rd by (simp add: field_simps)
  then have "\<bar>real_of_int ?n - x / ?u\<bar> * ?u = \<bar>round_double x - x\<bar>"
    using abs_times_pos[of ?u] by simp
  ultimately have half: "\<bar>round_double x - x\<bar> \<le> ?u / 2" by simp
  show ?thesis
  proof (cases "- 1022 \<le> \<lfloor>log 2 \<bar>x\<bar>\<rfloor>")
    case True
    from scaled_ge[OF False True] have "2 ^ 52 * ?u \<le> \<bar>x\<bar>" by (simp add: field_simps)
    then have "?u / 2 \<le> \<bar>x\<bar> / 2 ^ 53" by simp
    moreover have "(0 :: real) \<le> 2 powr (- 1075)" by simp
    ultimately show ?thesis using half by linarith
  next
    case False
    then have "?E = - 1074" by (simp add: ulp_exponent_def)
    then have "?u / 2 = 2 powr (- 1075)"
      by (simp add: powr_minus)
    moreover have "0 \<le> \<bar>x\<bar> / 2 ^ 53" by simp
    ultimately show ?thesis using half by linarith
  qed
qed

lemma binade_eq:
  assumes "2 powr real_of_int k \<le> \<bar>x\<bar>" "\<bar>x\<bar> < 2 powr (real_of_int k + 1)"
  shows "\<lfloor>log 2 \<bar>x\<bar>\<rfloor> = k"
proof (rule floor_unique)
  have pos: "0 < \<bar>x\<bar>" using assms(1) powr_gt_zero[of 2 "real_of_int k"] by linarith
  show "real_of_int k \<le> log 2 \<bar>x\<bar>" using assms(1) pos by (simp add: le_log_iff)
  show "log 2 \<bar>x\<bar> < real_of_int k + 1" using assms(2) pos by (simp add: log_less_iff)
qed

lemma round_double_eval:
  assumes "2 powr real_of_int k \<le> \<bar>x\<bar>" "\<bar>x\<bar> < 2 powr (real_of_int k + 1)" "- 1022 \<le> k"
  shows "round_double x =
           of_int (round_half_even (x / 2 powr real_of_int (k - 52))) * 2 powr real_of_int (k - 52)"
proof -
  have "x \<noteq> 0" using assms(1) powr_gt_zero[of 2 "real_of_int k"] by auto
  moreover have "ulp_exponent x = k - 52"
    using binade_eq[OF assms(1,2)] assms(3) by (simp add: ulp_exponent_def)
  ultimately show ?thesis by (simp add: round_double_def)
qed

lemma round_double_pow2 [simp]: "round_double (2 ^ n) = 2 ^ n"
  using round_double_representable[of 1 "int n"] by (simp add: powr_realpow)

lemma round_double_abs_le:
  assumes "\<bar>x\<bar> \<le> 2 ^ n"
  shows "\<bar>round_double x\<bar> \<le> 2 ^ n"
proof -
  from assms have "x \<le> 2 ^ n" "- (2 ^ n) \<le> x" by linarith+
  from round_double_mono[OF this(1)] round_double_mono[OF this(2)]
  show ?thesis by (simp add: round_double_minus)
qed

lemma to_float_fin:
  assumes "\<bar>x\<bar> \<le> 2 ^ 1023"
  shows "to_float x = Fin (round_double x)"
proof -
  from round_double_abs_le[OF assms] have "\<bar>round_double x\<bar> \<le> 2 ^ 1023" .
  also have "(2 :: real) ^ 1023 < 2 ^ 1024" by (rule power_strict_increasing) simp_all
  finally show ?thesis by (simp add: to_float_def Let_def)
qed

lemma to_float_exact:
  "round_double x = x \<Longrightarrow> \<bar>x\<bar> \<le> 2 ^ 1023 \<Longrightarrow> to_float x = Fin x"
  by (simp add: to_float_fin)

lemma to_float_unit:
  assumes "0 \<le> x" "x \<le> 1"
  shows "to_float x = Fin (round_double x)" "0 \<le> round_double x" "round_double x \<le> 1"
proof -
  have "\<bar>x\<bar> \<le> 2 ^ 1023" using assms by (simp add: order_trans[OF _ one_le_power])
  then show "to_float x = Fin (round_double x)" by (rule to_float_fin)
  show "0 \<le> round_double x" using assms(1) by (rule round_double_nonneg)
  show "round_double x \<le> 1" using round_double_mono[OF assms(2)] by simp
qed

lemma to_float_nonneg_cases:
  assumes "0 \<le> x"
  shows "to_float x = PInf \<or> (\<exists>r. to_float x = Fin r \<and> 0 \<le> r)"
  using round_double_nonneg[OF assms] by (auto simp: to_float_def Let_def)

lemma round_double_error_normal:
  assumes "2 powr (- 1022) \<le> \<bar>x\<bar>"
  shows "\<bar>round_double x - x\<bar> \<le> \<bar>x\<bar> / 2 ^ 53"
proof -
  have pos: "0 < \<bar>x\<bar>" using assms powr_gt_zero[of 2 "- 1022"] by linarith
  then have x0: "x \<noteq> 0" by auto
  from assms pos have "- 1022 \<le> log 2 \<bar>x\<bar>" by (simp add: le_log_iff)
  then have k: "- 1022 \<le> \<lfloor>log 2 \<bar>x\<bar>\<rfloor>" by (simp add: le_floor_iff)
  let ?E = "ulp_exponent x"
  let ?u = "2 powr real_of_int ?E"
  let ?n = "round_half_even (x / ?u)"
  have rd: "round_double x = real_of_int ?n * ?u"
    using x0 by (simp add: round_double_def)
  have "\<bar>real_of_int ?n - x / ?u\<bar> \<le> 1 / 2"
    using rhe_lower[of "x / ?u"] rhe_upper[of "x / ?u"] by linarith
  then have "\<bar>real_of_int ?n - x / ?u\<bar> * ?u \<le> 1 / 2 * ?u"
    by (intro mult_right_mono) simp_all
  moreover have "(real_of_int ?n - x / ?u) * ?u = round_double x - x"
    unfolding rd by (simp add: field_simps)
  then have "\<bar>real_of_int ?n - x / ?u\<bar> * ?u = \<bar>round_double x - x\<bar>"
    using abs_times_pos[of ?u] by simp
  ultimately have half: "\<bar>round_double x - x\<bar> \<le> ?u / 2" by simp
  from scaled_ge[OF x0 k] have "2 ^ 52 * ?u \<le> \<bar>x\<bar>" by (simp add: field_simps)
  then have "?u / 2 \<le> \<bar>x\<bar> / 2 ^ 53" by simp
  with half show ?thesis by linarith
qed

lemma double_multiple:
  assumes "round_double a = a"
  shows "\<exists>k :: int. a = of_int k * 2 powr (- 1074)"
proof (cases "a = 0")
  case True
  then show ?thesis by (intro exI[of _ 0]) simp
next
  case False
  let ?E = "ulp_exponent a"
  let ?n = "round_half_even (a / 2 powr real_of_int ?E)"
  have "0 \<le> ?E + 1074" using ulp_exponent_ge[of a] by linarith
  from powr_int_nonneg[OF this]
  have p: "2 powr real_of_int (?E + 1074) = 2 ^ nat (?E + 1074)" .
  have "2 powr real_of_int ?E = 2 powr (real_of_int (?E + 1074) + (- 1074))" by simp
  also have "\<dots> = 2 powr real_of_int (?E + 1074) * 2 powr (- 1074)" by (rule powr_add)
  finally have "2 powr real_of_int ?E = 2 ^ nat (?E + 1074) * 2 powr (- 1074)"
    by (simp only: p)
  moreover from assms False have "a = real_of_int ?n * 2 powr real_of_int ?E"
    by (simp add: round_double_def)
  ultimately have "a = real_of_int (?n * 2 ^ nat (?E + 1074)) * 2 powr (- 1074)" by simp
  then show ?thesis ..
qed

lemma small_sum_exact:
  assumes a: "round_double a = a" and b: "round_double b = b"
    and small: "\<bar>a + b\<bar> < 2 powr (- 1022)"
  shows "round_double (a + b) = a + b"
proof -
  from double_multiple[OF a] double_multiple[OF b] obtain ka kb :: int where
    k: "a = of_int ka * 2 powr (- 1074)" "b = of_int kb * 2 powr (- 1074)" by blast
  then have s: "a + b = real_of_int (ka + kb) * 2 powr real_of_int (- 1074)"
    by (simp add: distrib_right)
  have "(2 :: real) powr (- 1022) = 2 powr (52 + (- 1074))" by simp
  also have "\<dots> = 2 powr 52 * 2 powr (- 1074)" by (rule powr_add)
  finally have "(2 :: real) powr (- 1022) = 2 ^ 52 * 2 powr (- 1074)" by simp
  with small s have "\<bar>real_of_int (ka + kb)\<bar> * 2 powr (- 1074) < 2 ^ 52 * 2 powr (- 1074)"
    by (simp add: abs_mult)
  then have "\<bar>real_of_int (ka + kb)\<bar> < 2 ^ 52" by simp
  then have "\<bar>ka + kb\<bar> < 2 ^ 52"
    by (metis of_int_abs of_int_less_numeral_power_cancel_iff)
  also have "(2 :: int) ^ 52 < 2 ^ 53" by simp
  finally have "\<bar>ka + kb\<bar> < 2 ^ 53" .
  from round_double_representable[OF this, of "- 1074"] show ?thesis
    unfolding s by simp
qed

lemma tiny: "(2 :: real) powr (- 1075) \<le> 1 / 2 ^ 60"
proof -
  have "(2 :: real) powr (- 1075) \<le> 2 powr (- 60)" by (rule powr_mono) simp_all
  also have "\<dots> = 1 / 2 ^ 60" by (simp add: powr_minus inverse_eq_divide)
  finally show ?thesis .
qed

lemma sum_over_rounded_sum:
  assumes a: "round_double a = a" "0 \<le> a" and b: "round_double b = b" "0 \<le> b"
    and pos: "0 < a + b"
  shows "0 < round_double (a + b)"
    and "\<bar>(a + b) / round_double (a + b) - 1\<bar> \<le> 1 / 2 ^ 52"
proof -
  let ?t = "a + b" and ?s = "round_double (a + b)"
  have close: "\<bar>?s - ?t\<bar> \<le> ?t / 2 ^ 53"
  proof (cases "?t < 2 powr (- 1022)")
    case True
    with pos have "\<bar>?t\<bar> < 2 powr (- 1022)" by simp
    from small_sum_exact[OF a(1) b(1) this] pos show ?thesis by simp
  next
    case False
    then have "2 powr (- 1022) \<le> \<bar>?t\<bar>" by simp
    from round_double_error_normal[OF this] pos show ?thesis by simp
  qed
  define e where "e = ?t / 2 ^ 53"
  have e: "0 \<le> e" "e \<le> ?t / 2" "\<bar>?s - ?t\<bar> \<le> e"
  proof -
    show "0 \<le> e" using pos by (simp add: e_def)
    have "?t * (1 / 2 ^ 53) \<le> ?t * (1 / 2)" using pos by (intro mult_left_mono) simp_all
    then show "e \<le> ?t / 2" by (simp add: e_def)
    show "\<bar>?s - ?t\<bar> \<le> e" using close by (simp add: e_def)
  qed
  from e(3) have lower: "?t - e \<le> ?s" by (simp add: abs_le_iff)
  with e(2) have half: "?t / 2 \<le> ?s" by simp
  with pos show s: "0 < ?s" by simp
  note half
  then have "?t / 2 * (1 / 2 ^ 52) \<le> ?s * (1 / 2 ^ 52)" by (intro mult_right_mono) simp_all
  then have "e \<le> ?s / 2 ^ 52" by (simp add: e_def)
  with e(3) have d: "\<bar>?t - ?s\<bar> \<le> ?s / 2 ^ 52" by linarith
  have "?t / ?s - 1 = (?t - ?s) / ?s" using s by (simp add: field_simps)
  then have "\<bar>?t / ?s - 1\<bar> = \<bar>?t - ?s\<bar> / ?s" using s by (simp add: abs_divide)
  also have "\<dots> \<le> (?s / 2 ^ 52) / ?s" using d s by (intro divide_right_mono) simp_all
  also have "\<dots> = 1 / 2 ^ 52" using s by simp
  finally show "\<bar>?t / ?s - 1\<bar> \<le> 1 / 2 ^ 52" .
qed

lemma quotient_error:
  assumes "0 \<le> q" "q \<le> 1"
  shows "\<bar>round_double q - q\<bar> \<le> 1 / 2 ^ 53 + 1 / 2 ^ 60"
proof -
  have "\<bar>round_double q - q\<bar> \<le> \<bar>q\<bar> / 2 ^ 53 + 2 powr (- 1075)" by (rule round_double_error)
  moreover have "\<bar>q\<bar> / 2 ^ 53 \<le> 1 / 2 ^ 53" using assms by (simp add: divide_right_mono)
  ultimately show ?thesis using tiny by linarith
qed

lemma to_float_of_int:
  assumes "\<bar>k\<bar> < 2 ^ 53"
  shows "to_float (of_int k) = Fin (of_int k)"
proof -
  from round_double_representable[OF assms, of 0] have r: "round_double (of_int k) = of_int k"
    by simp
  from assms have "real_of_int \<bar>k\<bar> \<le> 2 ^ 53" by (simp add: of_int_le_numeral_power_cancel_iff)
  also have "(2 :: real) ^ 53 \<le> 2 ^ 1023" by (rule power_increasing) simp_all
  finally have "\<bar>real_of_int k\<bar> \<le> 2 ^ 1023" by simp
  with r show ?thesis by (rule to_float_exact)
qed

lemma to_float_dyadic:
  assumes "\<bar>k\<bar> < 2 ^ 53" "n \<le> 1074"
  shows "to_float (of_int k / 2 ^ n) = Fin (of_int k / 2 ^ n)"
proof -
  have p: "2 powr real_of_int (- int n) = 1 / 2 ^ n"
    by (simp add: powr_minus powr_realpow inverse_eq_divide)
  from assms(2) have "- 1074 \<le> - int n" by simp
  from round_double_representable[OF assms(1) this]
  have r: "round_double (of_int k / 2 ^ n) = of_int k / 2 ^ n" by (simp only: p) simp
  from assms have "real_of_int \<bar>k\<bar> \<le> 2 ^ 53" by (simp add: of_int_le_numeral_power_cancel_iff)
  also have "(2 :: real) ^ 53 \<le> 2 ^ 1023" by (rule power_increasing) simp_all
  finally have k: "\<bar>real_of_int k\<bar> \<le> 2 ^ 1023" by simp
  have "\<bar>real_of_int k / 2 ^ n\<bar> \<le> \<bar>real_of_int k\<bar>"
    by (simp add: abs_divide) (simp add: divide_le_eq mult_le_cancel_left1 abs_ge_zero)
  with k have "\<bar>real_of_int k / 2 ^ n\<bar> \<le> 2 ^ 1023" by linarith
  with r show ?thesis by (rule to_float_exact)
qed

lemma float_values:
  "to_float 0 = Fin 0" "to_float 1 = Fin 1" "to_float 7 = Fin 7" "to_float 10 = Fin 10"
  "to_float 14 = Fin 14" "to_float 20 = Fin 20" "to_float 100 = Fin 100"
  "to_float 200 = Fin 200" "to_float 500 = Fin 500" "to_float 1000 = Fin 1000"
  "to_float 1000000000 = Fin 1000000000" "to_float 2000000000 = Fin 2000000000"
  "to_float (1 / 2) = Fin (1 / 2)" "to_float (1 / 2048) = Fin (1 / 2048)"
  "to_float (1 / 4096) = Fin (1 / 4096)" "to_float (125 / 512) = Fin (125 / 512)"
  using to_float_of_int[of 0] to_float_of_int[of 1] to_float_of_int[of 7]
    to_float_of_int[of 10] to_float_of_int[of 14] to_float_of_int[of 20]
    to_float_of_int[of 100] to_float_of_int[of 200] to_float_of_int[of 500]
    to_float_of_int[of 1000] to_float_of_int[of 1000000000] to_float_of_int[of 2000000000]
    to_float_dyadic[of 1 1] to_float_dyadic[of 1 11] to_float_dyadic[of 1 12]
    to_float_dyadic[of 125 9]
  by simp_all

section \<open>The estimate cache after the first pass\<close>

lemma finite_nonneg_iff: "finite_nonneg v \<longleftrightarrow> (\<exists>r. v = Fin r \<and> 0 \<le> r)"
  by (cases v) (simp_all add: finite_nonneg_def)

lemma sanitize_finite_nonneg: "finite_nonneg (sanitize v)"
  by (cases v) (simp_all add: sanitize_def SENTINEL_def isnan_def finite_nonneg_def)

lemma sanitize_keeps: "finite_nonneg v \<Longrightarrow> sanitize v = v"
  by (cases v) (simp_all add: sanitize_def isnan_def finite_nonneg_def)

lemma sanitize_replaces:
  "v = PInf \<or> v = NInf \<or> isnan v \<or> flt v (Fin 0) \<Longrightarrow> sanitize v = SENTINEL"
  by (auto simp: sanitize_def)

lemma py_max_fin: "py_max (Fin a) (Fin b) = Fin (max a b)"
  by (simp add: py_max_def max_def)

lemma bounded_by_fin: "bounded_by (Fin a) (Fin b) \<longleftrightarrow> 0 \<le> a \<and> a \<le> b"
  by (auto simp: bounded_by_def finite_nonneg_def)

lemma collect_pair_eq:
  "i \<noteq> j \<Longrightarrow>
   collect_pair cfg pts i j st =
     \<lparr>all_segments_data_cache =
        (all_segments_data_cache st)(cache_key (pts ! i) (pts ! j) \<mapsto>
           \<lparr>sd_distance = pair_distance cfg (pts ! i) (pts ! j),
            sd_duration = pair_duration cfg (pts ! i) (pts ! j),
            sd_mapbox_raw = snd (pair_route_data cfg (pts ! i) (pts ! j))\<rparr>),
      max_duration_for_normalization =
        py_max (max_duration_for_normalization st) (pair_duration cfg (pts ! i) (pts ! j)),
      max_distance_for_normalization =
        py_max (max_distance_for_normalization st) (pair_distance cfg (pts ! i) (pts ! j)),
      calls = calls st @ fst (pair_route_data cfg (pts ! i) (pts ! j))
               @ fst (predicted_duration cfg (pts ! i) (pts ! j)
                        (distance_or_inf (snd (pair_route_data cfg (pts ! i) (pts ! j))))
                        (duration_or_inf (snd (pair_route_data cfg (pts ! i) (pts ! j)))))\<rparr>"
  by (simp add: collect_pair_def pair_distance_def pair_duration_def Let_def split: prod.splits)

lemma pair_distance_nonneg: "finite_nonneg (pair_distance cfg p q)"
  by (simp add: pair_distance_def sanitize_finite_nonneg)

lemma pair_duration_nonneg: "finite_nonneg (pair_duration cfg p q)"
  by (simp add: pair_duration_def sanitize_finite_nonneg Let_def)

lemma collect_pair_inv:
  assumes "collect_inv st"
  shows "collect_inv (collect_pair cfg pts i j st)"
proof (cases "i = j")
  case True
  then show ?thesis using assms by (simp add: collect_pair_def)
next
  case False
  obtain d where d: "pair_distance cfg (pts ! i) (pts ! j) = Fin d" "0 \<le> d"
    using pair_distance_nonneg[of cfg "pts ! i" "pts ! j"] by (auto simp: finite_nonneg_iff)
  obtain t where t: "pair_duration cfg (pts ! i) (pts ! j) = Fin t" "0 \<le> t"
    using pair_duration_nonneg[of cfg "pts ! i" "pts ! j"] by (auto simp: finite_nonneg_iff)
  obtain md where md: "max_distance_for_normalization st = Fin md" "0 \<le> md"
    using assms by (auto simp: collect_inv_def finite_nonneg_iff)
  obtain mt where mt: "max_duration_for_normalization st = Fin mt" "0 \<le> mt"
    using assms by (auto simp: collect_inv_def finite_nonneg_iff)
  have old: "\<And>k segment. all_segments_data_cache st k = Some segment \<Longrightarrow>
      (\<exists>a. sd_distance segment = Fin a \<and> 0 \<le> a \<and> a \<le> md) \<and>
      (\<exists>b. sd_duration segment = Fin b \<and> 0 \<le> b \<and> b \<le> mt)"
    using assms md mt by (fastforce simp: collect_inv_def bounded_by_def finite_nonneg_iff)
  let ?st' = "collect_pair cfg pts i j st"
  have mx: "max_distance_for_normalization ?st' = Fin (max md d)"
      "max_duration_for_normalization ?st' = Fin (max mt t)"
    by (simp_all add: collect_pair_eq[OF False] d t md mt py_max_fin)
  have cache: "all_segments_data_cache ?st' =
      (all_segments_data_cache st)(cache_key (pts ! i) (pts ! j) \<mapsto>
         \<lparr>sd_distance = Fin d, sd_duration = Fin t,
          sd_mapbox_raw = snd (pair_route_data cfg (pts ! i) (pts ! j))\<rparr>)"
    by (simp add: collect_pair_eq[OF False] d t)
  have "bounded_by (sd_distance segment) (Fin (max md d)) \<and>
        bounded_by (sd_duration segment) (Fin (max mt t))"
    if "all_segments_data_cache ?st' k = Some segment" for k segment
  proof (cases "k = cache_key (pts ! i) (pts ! j)")
    case True
    with that cache have "segment = \<lparr>sd_distance = Fin d, sd_duration = Fin t,
          sd_mapbox_raw = snd (pair_route_data cfg (pts ! i) (pts ! j))\<rparr>"
      by simp
    then show ?thesis using d t by (simp add: bounded_by_fin)
  next
    case False
    with that cache have "all_segments_data_cache st k = Some segment" by simp
    from old[OF this] show ?thesis by (auto simp: bounded_by_fin)
  qed
  then show ?thesis
    unfolding collect_inv_def mx
    using d md t mt by (auto simp: finite_nonneg_def)
qed

lemma foldl_inv:
  "P s \<Longrightarrow> (\<And>s x. P s \<Longrightarrow> P (f s x)) \<Longrightarrow> P (foldl f s xs)"
  by (induction xs arbitrary: s) auto

lemma collect_init_inv: "collect_inv collect_init"
  by (simp add: collect_inv_def collect_init_def finite_nonneg_def)

lemma collect_estimates_inv: "collect_inv (collect_estimates cfg pts)"
  unfolding collect_estimates_def
proof (rule foldl_inv[where P = collect_inv])
  show "collect_inv collect_init" by (rule collect_init_inv)
next
  fix s :: collect_state and i :: nat
  assume "collect_inv s"
  then show "collect_inv (foldl (\<lambda>st' j. collect_pair cfg pts i j st') s [0..<length pts])"
    by (rule foldl_inv[where P = collect_inv]) (rule collect_pair_inv)
qed

lemma foldl_inv_set:
  "P s \<Longrightarrow> (\<And>s x. x \<in> set xs \<Longrightarrow> P s \<Longrightarrow> P (f s x)) \<Longrightarrow> P (foldl f s xs)"
  by (induction xs arbitrary: s) auto

lemma foldl_establish:
  assumes "a \<in> set xs" and est: "\<And>s. R (f s a)" and mono: "\<And>s x. R s \<Longrightarrow> R (f s x)"
  shows "R (foldl f s xs)"
  using assms(1)
proof (induction xs arbitrary: s)
  case Nil
  then show ?case by simp
next
  case (Cons x xs)
  show ?case
  proof (cases "a = x")
    case True
    have "R (f s x)" using est True by simp
    then have "R (foldl f (f s x) xs)" by (rule foldl_inv[where P = R]) (rule mono)
    then show ?thesis by simp
  next
    case False
    with Cons.prems have "a \<in> set xs" by simp
    from Cons.IH[OF this] show ?thesis by simp
  qed
qed

lemma collect_pair_keeps:
  "all_segments_data_cache st k \<noteq> None \<Longrightarrow>
   all_segments_data_cache (collect_pair cfg pts i j st) k \<noteq> None"
  by (cases "i = j") (simp_all add: collect_pair_eq, simp add: collect_pair_def)

lemma collect_pair_adds:
  "i \<noteq> j \<Longrightarrow>
   all_segments_data_cache (collect_pair cfg pts i j st) (cache_key (pts ! i) (pts ! j)) \<noteq> None"
  by (simp add: collect_pair_eq)

lemma collect_estimates_covers:
  assumes "i < length pts" "j < length pts" "i \<noteq> j"
  shows "all_segments_data_cache (collect_estimates cfg pts) (cache_key (pts ! i) (pts ! j)) \<noteq> None"
proof -
  let ?R = "\<lambda>st. all_segments_data_cache st (cache_key (pts ! i) (pts ! j)) \<noteq> None"
  let ?inner = "\<lambda>a st. foldl (\<lambda>st' b. collect_pair cfg pts a b st') st [0..<length pts]"
  have inner_mono: "?R (?inner a st)" if "?R st" for a st
    using that by (rule foldl_inv[where P = ?R]) (rule collect_pair_keeps)
  have inner_est: "?R (?inner i st)" for st
  proof (rule foldl_establish[where a = j and R = ?R])
    show "j \<in> set [0..<length pts]" using assms by simp
    show "?R (collect_pair cfg pts i j s)" for s using assms by (simp add: collect_pair_adds)
    show "?R (collect_pair cfg pts i x s)" if "?R s" for s x
      using that by (rule collect_pair_keeps)
  qed
  have "?R (foldl (\<lambda>st a. ?inner a st) collect_init [0..<length pts])"
  proof (rule foldl_establish[where a = i and R = ?R])
    show "i \<in> set [0..<length pts]" using assms by simp
    show "?R (?inner i s)" for s by (rule inner_est)
    show "?R (?inner x s)" if "?R s" for s x using that by (rule inner_mono)
  qed
  then show ?thesis by (simp add: collect_estimates_def)
qed

lemma collect_pair_written_by:
  assumes "written_by cfg pts st" "i < length pts" "j < length pts"
  shows "written_by cfg pts (collect_pair cfg pts i j st)"
proof (cases "i = j")
  case True
  then show ?thesis using assms by (simp add: collect_pair_def)
next
  case False
  show ?thesis
    unfolding written_by_def
  proof (intro allI impI)
    fix k segment
    assume a: "all_segments_data_cache (collect_pair cfg pts i j st) k = Some segment"
    show "\<exists>i j. i < length pts \<and> j < length pts \<and> i \<noteq> j \<and> k = cache_key (pts ! i) (pts ! j)
        \<and> sd_distance segment = pair_distance cfg (pts ! i) (pts ! j)
        \<and> sd_duration segment = pair_duration cfg (pts ! i) (pts ! j)"
    proof (cases "k = cache_key (pts ! i) (pts ! j)")
      case True
      with a False have "sd_distance segment = pair_distance cfg (pts ! i) (pts ! j)"
        "sd_duration segment = pair_duration cfg (pts ! i) (pts ! j)"
        by (auto simp: collect_pair_eq)
      with True False assms(2,3) show ?thesis by blast
    next
      case nk: False
      with a False have "all_segments_data_cache st k = Some segment"
        by (simp add: collect_pair_eq)
      with assms(1) show ?thesis unfolding written_by_def by blast
    qed
  qed
qed

lemma collect_estimates_written_by: "written_by cfg pts (collect_estimates cfg pts)"
  unfolding collect_estimates_def
proof (rule foldl_inv_set[where P = "written_by cfg pts"])
  show "written_by cfg pts collect_init" by (simp add: written_by_def collect_init_def)
next
  fix s :: collect_state and i :: nat
  assume i: "i \<in> set [0..<length pts]" and s: "written_by cfg pts s"
  show "written_by cfg pts (foldl (\<lambda>st' j. collect_pair cfg pts i j st') s [0..<length pts])"
  proof (rule foldl_inv_set[where P = "written_by cfg pts"])
    show "written_by cfg pts s" by (rule s)
  next
    fix s' :: collect_state and j :: nat
    assume "j \<in> set [0..<length pts]" "written_by cfg pts s'"
    with i show "written_by cfg pts (collect_pair cfg pts i j s')"
      by (simp add: collect_pair_written_by)
  qed
qed




section \<open>The effective weights and the cost of a pair\<close>

lemma total_weights_zero:
  "weight_time req + weight_distance req = 0 \<Longrightarrow> total_weights req = Fin 0"
  by (simp add: total_weights_def to_float_def)

lemma total_weights_fin:
  assumes "field_constraints req"
  shows "total_weights req = Fin (round_double (weight_time req + weight_distance req))"
    and "weight_time req \<le> round_double (weight_time req + weight_distance req)"
    and "weight_distance req \<le> round_double (weight_time req + weight_distance req)"
proof -
  let ?a = "weight_time req" and ?b = "weight_distance req"
  from assms have a: "round_double ?a = ?a" "0 \<le> ?a" "?a \<le> 1"
    and b: "round_double ?b = ?b" "0 \<le> ?b" "?b \<le> 1"
    by (simp_all add: field_constraints_def)
  have "\<bar>?a + ?b\<bar> \<le> 2 ^ 1" using a b by simp
  also have "(2 :: real) ^ 1 \<le> 2 ^ 1023" by (rule power_increasing) simp_all
  finally show "total_weights req = Fin (round_double (?a + ?b))"
    by (simp add: total_weights_def to_float_fin)
  have "round_double ?a \<le> round_double (?a + ?b)" using b by (intro round_double_mono) simp
  then show "?a \<le> round_double (?a + ?b)" by (simp add: a)
  have "round_double ?b \<le> round_double (?a + ?b)" using a by (intro round_double_mono) simp
  then show "?b \<le> round_double (?a + ?b)" by (simp add: b)
qed

lemma total_weights_zero_iff:
  assumes "field_constraints req"
  shows "total_weights req = Fin 0 \<longleftrightarrow> weight_time req + weight_distance req = 0"
proof
  assume "total_weights req = Fin 0"
  with total_weights_fin[OF assms]
  have "weight_time req \<le> 0" "weight_distance req \<le> 0" by simp_all
  moreover from assms have "0 \<le> weight_time req" "0 \<le> weight_distance req"
    by (simp_all add: field_constraints_def)
  ultimately show "weight_time req + weight_distance req = 0" by simp
qed (rule total_weights_zero)

lemma effective_weights:
  assumes fc: "field_constraints req" and nz: "weight_time req + weight_distance req \<noteq> 0"
  shows "\<exists>nt nd. normalized_weight_time req = Inr (Fin nt)
           \<and> normalized_weight_distance req = Inr (Fin nd)
           \<and> nt = round_double (weight_time req
                                  / round_double (weight_time req + weight_distance req))
           \<and> nd = round_double (weight_distance req
                                  / round_double (weight_time req + weight_distance req))
           \<and> 0 \<le> nt \<and> nt \<le> 1 \<and> 0 \<le> nd \<and> nd \<le> 1
           \<and> round_double nt = nt \<and> round_double nd = nd"
proof -
  let ?a = "weight_time req" and ?b = "weight_distance req"
  let ?s = "round_double (?a + ?b)"
  note tw = total_weights_fin[OF fc]
  from fc have a: "0 \<le> ?a" and b: "0 \<le> ?b" by (simp_all add: field_constraints_def)
  from nz total_weights_zero_iff[OF fc] tw(1) have s0: "?s \<noteq> 0" by simp
  with tw(2) a have s: "0 < ?s" by linarith
  have qa: "0 \<le> ?a / ?s" "?a / ?s \<le> 1" using a s tw(2) by simp_all
  have qb: "0 \<le> ?b / ?s" "?b / ?s \<le> 1" using b s tw(3) by simp_all
  have "normalized_weight_time req = Inr (Fin (round_double (?a / ?s)))"
    using s0 by (simp add: normalized_weight_time_def tw(1) fdiv_def to_float_unit(1)[OF qa])
  moreover have "normalized_weight_distance req = Inr (Fin (round_double (?b / ?s)))"
    using s0 by (simp add: normalized_weight_distance_def tw(1) fdiv_def to_float_unit(1)[OF qb])
  ultimately show ?thesis
    using to_float_unit(2,3)[OF qa] to_float_unit(2,3)[OF qb]
    by (simp add: round_double_idem)
qed

lemma normalized_unit:
  assumes "bounded_by v m" "finite_nonneg m"
  shows "\<exists>x. fdiv v (py_max (Fin 1) m) = Inr (Fin x) \<and> 0 \<le> x \<and> x \<le> 1"
proof -
  from assms obtain a b where ab: "v = Fin a" "m = Fin b" "0 \<le> a" "a \<le> b"
    by (cases v; cases m) (auto simp: bounded_by_def finite_nonneg_def)
  define d where "d = max 1 b"
  have mx: "py_max (Fin 1) m = Fin d" by (simp add: ab py_max_fin d_def)
  have d: "1 \<le> d" "a \<le> d" using ab by (simp_all add: d_def)
  have q: "0 \<le> a / d" "a / d \<le> 1" using ab d by simp_all
  have "d \<noteq> 0" using d by simp
  then have "fdiv v (py_max (Fin 1) m) = Inr (Fin (round_double (a / d)))"
    unfolding mx ab(1) by (simp add: fdiv_def to_float_unit(1)[OF q])
  with to_float_unit(2,3)[OF q] show ?thesis by blast
qed

lemma weighted_sum:
  assumes w: "0 \<le> wt" "wt \<le> 1" "0 \<le> wd" "wd \<le> 1"
      "round_double wt = wt" "round_double wd = wd"
    and x: "0 \<le> x" "x \<le> 1" and y: "0 \<le> y" "y \<le> 1"
  shows "\<exists>c. fadd (fmul (Fin wt) (Fin y)) (fmul (Fin wd) (Fin x)) = Fin c
           \<and> 0 \<le> c \<and> c \<le> round_double (wt + wd)"
proof -
  have p: "0 \<le> wt * y" "wt * y \<le> 1" using w y by (simp_all add: mult_le_one)
  have q: "0 \<le> wd * x" "wd * x \<le> 1" using w x by (simp_all add: mult_le_one)
  let ?p = "round_double (wt * y)" and ?q = "round_double (wd * x)"
  have "wt * y \<le> wt * 1" using w y by (intro mult_left_mono) simp_all
  then have "?p \<le> round_double wt" using round_double_mono[of "wt * y" wt] by simp
  then have pw: "?p \<le> wt" by (simp add: w)
  have "wd * x \<le> wd * 1" using w x by (intro mult_left_mono) simp_all
  then have "?q \<le> round_double wd" using round_double_mono[of "wd * x" wd] by simp
  then have qw: "?q \<le> wd" by (simp add: w)
  note P = to_float_unit[OF p] and Q = to_float_unit[OF q]
  have "\<bar>?p + ?q\<bar> \<le> 2 ^ 1" using P(2,3) Q(2,3) by simp
  also have "(2 :: real) ^ 1 \<le> 2 ^ 1023" by (rule power_increasing) simp_all
  finally have "to_float (?p + ?q) = Fin (round_double (?p + ?q))" by (rule to_float_fin)
  then have "fadd (fmul (Fin wt) (Fin y)) (fmul (Fin wd) (Fin x))
               = Fin (round_double (?p + ?q))"
    by (simp add: P(1) Q(1))
  moreover have "0 \<le> round_double (?p + ?q)" using P(2) Q(2) by (intro round_double_nonneg) simp
  moreover have "round_double (?p + ?q) \<le> round_double (wt + wd)"
    using pw qw by (intro round_double_mono) simp
  ultimately show ?thesis by blast
qed

lemma cost_entry_bounds:
  assumes inv: "collect_inv st"
    and cov: "i \<noteq> j \<longrightarrow> all_segments_data_cache st (cache_key (pts ! i) (pts ! j)) \<noteq> None"
    and w: "0 \<le> wt" "wt \<le> 1" "0 \<le> wd" "wd \<le> 1"
      "round_double wt = wt" "round_double wd = wd"
  shows "\<exists>c. cost_entry pts (all_segments_data_cache st)
             (py_max (Fin 1) (max_duration_for_normalization st))
             (py_max (Fin 1) (max_distance_for_normalization st)) (Fin wt) (Fin wd) i j
             = Inr (Fin c)
           \<and> 0 \<le> c \<and> c \<le> round_double (wt + wd) \<and> (i = j \<longrightarrow> c = 0)"
proof (cases "i = j")
  case True
  have "0 \<le> round_double (wt + wd)" using w by (intro round_double_nonneg) simp
  with True show ?thesis by (simp add: cost_entry_def)
next
  case False
  with cov obtain segment where
    seg: "all_segments_data_cache st (cache_key (pts ! i) (pts ! j)) = Some segment" by auto
  from inv seg have b: "bounded_by (sd_distance segment) (max_distance_for_normalization st)"
    "bounded_by (sd_duration segment) (max_duration_for_normalization st)"
    unfolding collect_inv_def by blast+
  from inv have f: "finite_nonneg (max_distance_for_normalization st)"
    "finite_nonneg (max_duration_for_normalization st)"
    unfolding collect_inv_def by blast+
  from normalized_unit[OF b(1) f(1)] obtain x where
    x: "fdiv (sd_distance segment) (py_max (Fin 1) (max_distance_for_normalization st))
          = Inr (Fin x)" "0 \<le> x" "x \<le> 1" by auto
  from normalized_unit[OF b(2) f(2)] obtain y where
    y: "fdiv (sd_duration segment) (py_max (Fin 1) (max_duration_for_normalization st))
          = Inr (Fin y)" "0 \<le> y" "y \<le> 1" by auto
  from weighted_sum[OF w x(2,3) y(2,3)] obtain c where
    "fadd (fmul (Fin wt) (Fin y)) (fmul (Fin wd) (Fin x)) = Fin c"
    "0 \<le> c" "c \<le> round_double (wt + wd)" by blast
  with False seg x(1) y(1) show ?thesis by (simp add: cost_entry_def)
qed

lemma scale_cost_nonneg:
  assumes "0 \<le> c"
  shows "\<exists>k. scale_cost (Fin c) = Inr k \<and> 0 \<le> k \<and> k \<le> 1000000000"
proof -
  from assms have "0 \<le> c * 1000" by simp
  from to_float_nonneg_cases[OF this] show ?thesis
  proof
    assume "to_float (c * 1000) = PInf"
    then show ?thesis
      by (simp add: scale_cost_def py_min_def INTEGER_SCALE_FACTOR_def MAX_ORTOOLS_COST_def)
  next
    assume "\<exists>r. to_float (c * 1000) = Fin r \<and> 0 \<le> r"
    then obtain r where r: "to_float (c * 1000) = Fin r" "0 \<le> r" by blast
    show ?thesis
    proof (cases "r < 1000000000")
      case True
      then have "\<lfloor>r\<rfloor> \<le> 1000000000" by (simp add: floor_le_iff)
      with True r show ?thesis
        by (simp add: scale_cost_def py_min_def INTEGER_SCALE_FACTOR_def MAX_ORTOOLS_COST_def)
    next
      case False
      with r show ?thesis
        by (simp add: scale_cost_def py_min_def INTEGER_SCALE_FACTOR_def MAX_ORTOOLS_COST_def)
    qed
  qed
qed

lemma effective_weights_sum:
  assumes fc: "field_constraints req" and nz: "weight_time req + weight_distance req \<noteq> 0"
  shows "\<bar>round_double (weight_time req / round_double (weight_time req + weight_distance req))
          + round_double (weight_distance req
               / round_double (weight_time req + weight_distance req)) - 1\<bar> \<le> 1 / 2 ^ 50"
    and "\<bar>round_double
           (round_double (weight_time req / round_double (weight_time req + weight_distance req))
            + round_double (weight_distance req
                 / round_double (weight_time req + weight_distance req))) - 1\<bar> \<le> 1 / 2 ^ 50"
proof -
  let ?a = "weight_time req" and ?b = "weight_distance req"
  let ?s = "round_double (?a + ?b)"
  let ?nt = "round_double (?a / ?s)" and ?nd = "round_double (?b / ?s)"
  from fc have a: "round_double ?a = ?a" "0 \<le> ?a" and b: "round_double ?b = ?b" "0 \<le> ?b"
    by (simp_all add: field_constraints_def)
  from a b nz have pos: "0 < ?a + ?b" by linarith
  note S = sum_over_rounded_sum[OF a b pos]
  note tw = total_weights_fin[OF fc]
  have qa: "0 \<le> ?a / ?s" "?a / ?s \<le> 1" using a S(1) tw(2) by simp_all
  have qb: "0 \<le> ?b / ?s" "?b / ?s \<le> 1" using b S(1) tw(3) by simp_all
  note ea = quotient_error[OF qa] and eb = quotient_error[OF qb]
  have split: "(?a + ?b) / ?s = ?a / ?s + ?b / ?s" by (simp add: add_divide_distrib)
  have p: "(1 :: real) / 2 ^ 53 + 1 / 2 ^ 60 + (1 / 2 ^ 53 + 1 / 2 ^ 60) + 1 / 2 ^ 52
             \<le> 5 / 2 ^ 53" by simp
  from ea eb S(2)[unfolded split] have "\<bar>?nt + ?nd - 1\<bar>
      \<le> 1 / 2 ^ 53 + 1 / 2 ^ 60 + (1 / 2 ^ 53 + 1 / 2 ^ 60) + 1 / 2 ^ 52" by linarith
  with p have real_sum: "\<bar>?nt + ?nd - 1\<bar> \<le> 5 / 2 ^ 53" by linarith
  have "(5 :: real) / 2 ^ 53 \<le> 1 / 2 ^ 50" by simp
  with real_sum show "\<bar>?nt + ?nd - 1\<bar> \<le> 1 / 2 ^ 50" by linarith
  have "(5 :: real) / 2 ^ 53 \<le> 1" by simp
  with real_sum have le2: "\<bar>?nt + ?nd\<bar> \<le> 2" by linarith
  have "\<bar>round_double (?nt + ?nd) - (?nt + ?nd)\<bar> \<le> \<bar>?nt + ?nd\<bar> / 2 ^ 53 + 2 powr (- 1075)"
    by (rule round_double_error)
  moreover have "\<bar>?nt + ?nd\<bar> / 2 ^ 53 \<le> 2 / 2 ^ 53" using le2 by (simp add: divide_right_mono)
  ultimately have "\<bar>round_double (?nt + ?nd) - (?nt + ?nd)\<bar> \<le> 2 / 2 ^ 53 + 1 / 2 ^ 60"
    using tiny by linarith
  with real_sum have "\<bar>round_double (?nt + ?nd) - 1\<bar> \<le> 2 / 2 ^ 53 + 1 / 2 ^ 60 + 5 / 2 ^ 53"
    by linarith
  moreover have "(2 :: real) / 2 ^ 53 + 1 / 2 ^ 60 + 5 / 2 ^ 53 \<le> 1 / 2 ^ 50" by simp
  ultimately show "\<bar>round_double (?nt + ?nd) - 1\<bar> \<le> 1 / 2 ^ 50" by linarith
qed

section \<open>The cost matrix and the endpoint, step by step\<close>

lemma map_r_all_Inr:
  "(\<And>x. x \<in> set xs \<Longrightarrow> f x = Inr (g x)) \<Longrightarrow> map_r f xs = Inr (map g xs)"
  by (induction xs) simp_all

lemma unit_interval_iff: "unit_interval v \<longleftrightarrow> (\<exists>r. v = Fin r \<and> 0 \<le> r \<and> r \<le> 1)"
  by (cases v) (simp_all add: unit_interval_def)

lemma map_r_Inr_nth:
  "map_r f xs = Inr ys \<Longrightarrow> length ys = length xs \<and> (\<forall>i<length xs. f (xs ! i) = Inr (ys ! i))"
proof (induction xs arbitrary: ys)
  case Nil
  then show ?case by simp
next
  case (Cons x xs)
  from Cons.prems obtain y ys' where y: "f x = Inr y" and ys': "map_r f xs = Inr ys'"
    and ys: "ys = y # ys'"
    by (auto simp: bind_r_Inr)
  from Cons.IH[OF ys'] y ys show ?case
    by (auto simp: nth_Cons split: nat.splits)
qed

lemma build_cost_matrix_nth:
  assumes "build_cost_matrix pts cache mt md nwt nwd = Inr cm"
  shows "length cm = length pts \<and>
         (\<forall>i<length pts. length (cm ! i) = length pts \<and>
            (\<forall>j<length pts. cost_entry pts cache mt md nwt nwd i j = Inr (cm ! i ! j)))"
proof -
  let ?n = "length pts"
  let ?row = "\<lambda>i. map_r (cost_entry pts cache mt md nwt nwd i) [0..<?n]"
  from assms have m: "map_r ?row [0..<?n] = Inr cm" by (simp add: build_cost_matrix_def)
  from map_r_Inr_nth[OF m] have len: "length cm = ?n"
    and rows: "\<And>i. i < ?n \<Longrightarrow> ?row i = Inr (cm ! i)" by auto
  have "length (cm ! i) = ?n \<and>
        (\<forall>j<?n. cost_entry pts cache mt md nwt nwd i j = Inr (cm ! i ! j))" if "i < ?n" for i
    using map_r_Inr_nth[OF rows[OF that]] by auto
  with len show ?thesis by blast
qed

lemma build_cost_matrix_total:
  assumes "\<And>i j. i < length pts \<Longrightarrow> j < length pts \<Longrightarrow>
             \<exists>c. cost_entry pts cache mt md nwt nwd i j = Inr c"
  shows "\<exists>cm. build_cost_matrix pts cache mt md nwt nwd = Inr cm"
proof -
  let ?n = "length pts"
  let ?g = "\<lambda>i j. projr (cost_entry pts cache mt md nwt nwd i j)"
  have row: "map_r (cost_entry pts cache mt md nwt nwd i) [0..<?n] = Inr (map (?g i) [0..<?n])"
    if "i < ?n" for i
  proof (rule map_r_all_Inr)
    fix j assume "j \<in> set [0..<?n]"
    then have "j < ?n" by simp
    from assms[OF that this] show "cost_entry pts cache mt md nwt nwd i j = Inr (?g i j)"
      by auto
  qed
  have "map_r (\<lambda>i. map_r (cost_entry pts cache mt md nwt nwd i) [0..<?n]) [0..<?n]
        = Inr (map (\<lambda>i. map (?g i) [0..<?n]) [0..<?n])"
    by (rule map_r_all_Inr) (simp add: row)
  then show ?thesis by (auto simp: build_cost_matrix_def)
qed

lemma points_nth:
  "all_points_details cfg req ! 0 = current_location_point req"
  "all_points_details cfg req ! (length (all_points_details cfg req) - 1) = warehouse_point cfg req"
  "k < length (orders req) \<Longrightarrow> all_points_details cfg req ! Suc k = order_point (orders req ! k)"
  by (simp_all add: all_points_details_def nth_append)

lemma decode_solution_sum:
  "decode_solution cm cur rest acc s = Inr (r, t) \<Longrightarrow>
     r = acc @ cur # rest \<and>
     t = foldl fadd s (map (\<lambda>(a, b). cm ! a ! b) (zip (cur # rest) rest))"
proof (induction rest arbitrary: cur acc s)
  case Nil
  then show ?case by simp
next
  case (Cons nxt rest)
  from Cons.prems obtain c where c: "matrix_get cm cur nxt = Inr c"
    and rec: "decode_solution cm nxt rest (acc @ [cur]) (fadd s c) = Inr (r, t)"
    by (auto simp: bind_r_Inr)
  from c have "c = cm ! cur ! nxt"
    by (auto simp: matrix_get_def split: if_splits)
  with Cons.IH[OF rec] show ?case by simp
qed

lemma solve_tsp_result:
  assumes "solve_tsp_with_ortools solver cm n s e = (ev, Inr (Some res))"
  shows "\<exists>scaled a rest. scaled_cost_matrix cm = Inr scaled
           \<and> solver (travel_cost_callback scaled) n s e = Some (a, rest)
           \<and> route_indices res = a # rest"
proof -
  from assms obtain scaled a rest where sc: "scaled_cost_matrix cm = Inr scaled"
    and sol: "solver (travel_cost_callback scaled) n s e = Some (a, rest)"
    and dec: "bind_r (decode_solution cm a rest [] (Fin 0))
           (\<lambda>(indices, cost_sum). Inr (Some \<lparr>route_indices = indices, total_cost = cost_sum\<rparr>))
         = Inr (Some res)"
    by (auto simp: solve_tsp_with_ortools_def Let_def split: sum.splits option.splits)
  from dec obtain r t where d: "decode_solution cm a rest [] (Fin 0) = Inr (r, t)"
    and res: "res = \<lparr>route_indices = r, total_cost = t\<rparr>"
    by (auto simp: bind_r_Inr)
  from decode_solution_sum[OF d] res have "route_indices res = a # rest" by simp
  with sc sol show ?thesis by blast
qed

lemma assemble_response_Inr:
  assumes "snd (assemble_response cfg pts cache r) = Inr response"
  shows "\<exists>d t segs. assemble_segments pts cache (checked_route_indices (length pts) r)
                        (Fin 0, Fin 0, []) = Inr (d, t, segs)
           \<and> optimized_route response
               = optimized_route_points pts (checked_route_indices (length pts) r)
           \<and> total_predicted_time_seconds response = t
           \<and> total_distance_meters response = d
           \<and> segments_details response = Some segs"
  using assms
  by (auto simp: assemble_response_def Let_def bind_r_Inr split: prod.splits)

lemma identity_order: "2 \<le> n \<Longrightarrow> [0] @ [1..<n - 1] @ [n - 1] = [0..<n]"
proof -
  assume "2 \<le> n"
  then obtain m where n: "n = Suc (Suc m)" by (metis Suc_le_D numeral_2_eq_2 Suc_le_mono)
  have "[0..<Suc (Suc m)] = 0 # [1..<Suc (Suc m)]" by (simp add: upt_rec)
  also have "[1..<Suc (Suc m)] = [1..<Suc m] @ [Suc m]" by simp
  finally show ?thesis by (simp add: n)
qed

lemma checked_route_shape:
  assumes "2 \<le> n"
  shows "\<exists>mid. checked_route_indices n r = 0 # mid @ [n - 1]"
proof (cases "r = [] \<or> hd r \<noteq> 0 \<or> last r \<noteq> n - 1")
  case True
  then show ?thesis by (auto simp: checked_route_indices_def Let_def)
next
  case False
  then obtain rest where r: "r = 0 # rest" by (cases r) auto
  from False r assms have "rest \<noteq> []" by auto
  then have "rest = butlast rest @ [last rest]" by simp
  moreover from False r \<open>rest \<noteq> []\<close> have "last rest = n - 1" by simp
  ultimately have "r = 0 # butlast rest @ [n - 1]" using r by simp
  moreover from False have "checked_route_indices n r = r"
    by (auto simp: checked_route_indices_def Let_def)
  ultimately show ?thesis by metis
qed

lemma checked_route_fallback:
  assumes "2 \<le> n" "r = [] \<or> hd r \<noteq> 0 \<or> last r \<noteq> n - 1"
  shows "checked_route_indices n r = [0..<n]"
  using assms identity_order[of n] by (auto simp: checked_route_indices_def Let_def)

lemma checked_route_permutation:
  assumes n: "2 \<le> n" and d: "distinct r" and s: "set r = {0..<n}"
  shows "\<exists>mid. checked_route_indices n r = 0 # mid @ [n - 1]
           \<and> distinct mid \<and> set mid = {1..<n - 1}"
proof -
  have perm: "distinct (checked_route_indices n r) \<and> set (checked_route_indices n r) = {0..<n}"
  proof (cases "r = [] \<or> hd r \<noteq> 0 \<or> last r \<noteq> n - 1")
    case True
    from checked_route_fallback[OF n this] show ?thesis by simp
  next
    case False
    then have "checked_route_indices n r = r"
      by (auto simp: checked_route_indices_def Let_def)
    with d s show ?thesis by simp
  qed
  from checked_route_shape[OF n] obtain mid where
    mid: "checked_route_indices n r = 0 # mid @ [n - 1]" by blast
  from perm mid have dm: "distinct mid" "0 \<notin> set mid" "n - 1 \<notin> set mid" by auto
  from perm mid have "insert 0 (insert (n - 1) (set mid)) = {0..<n}" by auto
  with dm have "set mid = {0..<n} - {0, n - 1}" by blast
  also from n have "{0..<n} - {0, n - 1} = {1..<n - 1}" by auto
  finally have "set mid = {1..<n - 1}" .
  with mid dm show ?thesis by blast
qed

lemma assemble_segments_in_range:
  "assemble_segments pts cache (a # b # rest) acc = Inr res \<Longrightarrow>
   \<forall>x\<in>set (a # b # rest). x < length pts"
proof (induction rest arbitrary: a b acc)
  case Nil
  then show ?case
    by (auto simp: bind_r_Inr segment_step_def split: prod.splits if_splits)
next
  case (Cons c rest)
  from Cons.prems obtain acc' where st: "segment_step pts cache a b acc = Inr acc'"
    and rec: "assemble_segments pts cache (b # c # rest) acc' = Inr res"
    by (auto simp: bind_r_Inr)
  from st have "a < length pts" by (auto simp: segment_step_def split: prod.splits if_splits)
  with Cons.IH[OF rec] show ?case by simp
qed

lemma solve_tsp_trace:
  "scaled_cost_matrix cm = Inr scaled \<Longrightarrow>
   fst (solve_tsp_with_ortools solver cm n s e) = [SolverCall (travel_cost_callback scaled) n s e]"
  by (simp add: solve_tsp_with_ortools_def Let_def)


lemma normalized_weights_nonzero:
  assumes "total_weights req \<noteq> Fin 0"
  shows "normalized_weight_time req = Inr (fdiv_nz (Fin (weight_time req)) (total_weights req))"
    and "normalized_weight_distance req
           = Inr (fdiv_nz (Fin (weight_distance req)) (total_weights req))"
  using assms by (simp_all add: normalized_weight_time_def normalized_weight_distance_def fdiv_def)

lemma optimize_nonzero:
  assumes "total_weights req \<noteq> Fin 0"
    and "normalized_weight_time req = Inr nwt" "normalized_weight_distance req = Inr nwd"
  shows "optimize_delivery_route cfg req
           = optimize_with_weights cfg (all_points_details cfg req) nwt nwd"
  using assms by (simp add: optimize_delivery_route_def length_all_points Let_def)

lemma request_cost_matrix_weights:
  assumes "normalized_weight_time req = Inr nwt" "normalized_weight_distance req = Inr nwd"
  shows "request_cost_matrix cfg req
           = cost_matrix_pass (all_points_details cfg req)
               (collect_estimates cfg (all_points_details cfg req)) nwt nwd"
  using assms by (simp add: request_cost_matrix_def request_estimates_def)

lemma solver_called:
  assumes nz: "total_weights req \<noteq> Fin 0"
    and cm: "request_cost_matrix cfg req = Inr cm"
    and sc: "scaled_cost_matrix cm = Inr scaled"
  shows "SolverCall (travel_cost_callback scaled) (length (all_points_details cfg req)) 0
           (length (all_points_details cfg req) - 1)
         \<in> set (fst (optimize_delivery_route cfg req))"
proof -
  let ?pts = "all_points_details cfg req"
  note nw = normalized_weights_nonzero[OF nz]
  obtain ev r where sv: "solve_tsp_with_ortools (ortools cfg) cm (length ?pts) 0 (length ?pts - 1)
      = (ev, r)" by (cases "solve_tsp_with_ortools (ortools cfg) cm (length ?pts) 0 (length ?pts - 1)")
  from solve_tsp_trace[OF sc, of "ortools cfg" "length ?pts" 0 "length ?pts - 1"] sv
  have ev: "ev = [SolverCall (travel_cost_callback scaled) (length ?pts) 0 (length ?pts - 1)]"
    by simp
  from cm have cm': "cost_matrix_pass ?pts (collect_estimates cfg ?pts)
      (fdiv_nz (Fin (weight_time req)) (total_weights req))
      (fdiv_nz (Fin (weight_distance req)) (total_weights req)) = Inr cm"
    by (simp add: request_cost_matrix_weights[OF nw])
  have "set ev \<subseteq> set (fst (optimize_with_weights cfg ?pts
      (fdiv_nz (Fin (weight_time req)) (total_weights req))
      (fdiv_nz (Fin (weight_distance req)) (total_weights req))))"
    using sv cm' by (auto simp: optimize_with_weights_def Let_def
        split: sum.splits option.splits prod.splits)
  then show ?thesis by (simp add: optimize_nonzero[OF nz nw] ev)
qed

lemma successful_response:
  assumes "snd (optimize_delivery_route cfg req) = Inr response"
  shows "\<exists>a rest. solver_answer cfg req = Some (a, rest)
     \<and> snd (assemble_response cfg (all_points_details cfg req)
              (all_segments_data_cache (request_estimates cfg req)) (a # rest)) = Inr response"
proof -
  let ?pts = "all_points_details cfg req"
  let ?nwt = "fdiv_nz (Fin (weight_time req)) (total_weights req)"
  let ?nwd = "fdiv_nz (Fin (weight_distance req)) (total_weights req)"
  have nz: "total_weights req \<noteq> Fin 0"
    using assms by (auto simp: optimize_delivery_route_def length_all_points Let_def)
  note nw = normalized_weights_nonzero[OF nz]
  from assms have ow: "snd (optimize_with_weights cfg ?pts ?nwt ?nwd) = Inr response"
    by (simp add: optimize_nonzero[OF nz nw])
  from ow obtain cm where cm: "request_cost_matrix cfg req = Inr cm"
    by (cases "request_cost_matrix cfg req")
       (auto simp: optimize_with_weights_def request_cost_matrix_weights[OF nw] Let_def)
  obtain ev r where sv: "solve_tsp_with_ortools (ortools cfg) cm (length ?pts) 0 (length ?pts - 1)
      = (ev, r)" by (cases "solve_tsp_with_ortools (ortools cfg) cm (length ?pts) 0 (length ?pts - 1)")
  from ow cm sv obtain res where r: "r = Inr (Some res)"
    and as: "snd (assemble_response cfg ?pts (all_segments_data_cache (request_estimates cfg req))
               (route_indices res)) = Inr response"
    by (cases r)
       (auto simp: optimize_with_weights_def request_cost_matrix_weights[OF nw]
          request_estimates_def Let_def split: option.splits prod.splits)
  from solve_tsp_result[OF sv[unfolded r]] obtain scaled a rest where
    "scaled_cost_matrix cm = Inr scaled"
    "ortools cfg (travel_cost_callback scaled) (length ?pts) 0 (length ?pts - 1) = Some (a, rest)"
    "route_indices res = a # rest" by blast
  with cm as show ?thesis
    by (auto simp: solver_answer_def request_arcs_def Let_def)
qed

lemma request_matrices:
  assumes fc: "field_constraints req" and nz: "weight_time req + weight_distance req \<noteq> 0"
  shows "\<exists>nt nd cm scaled.
           normalized_weight_time req = Inr (Fin nt)
           \<and> normalized_weight_distance req = Inr (Fin nd)
           \<and> request_cost_matrix cfg req = Inr cm
           \<and> length cm = length (all_points_details cfg req)
           \<and> (\<forall>i<length (all_points_details cfg req).
                length (cm ! i) = length (all_points_details cfg req) \<and> cm ! i ! i = Fin 0 \<and>
                (\<forall>j<length (all_points_details cfg req).
                   \<exists>c. cm ! i ! j = Fin c \<and> 0 \<le> c \<and> c \<le> round_double (nt + nd)))
           \<and> scaled_cost_matrix cm = Inr scaled \<and> travel_cost_callback scaled = scaled
           \<and> length scaled = length cm
           \<and> (\<forall>row\<in>set scaled. \<forall>x\<in>set row. 0 \<le> x \<and> x \<le> 1000000000)
           \<and> request_arcs cfg req = Inr scaled"
proof -
  let ?pts = "all_points_details cfg req"
  let ?n = "length ?pts"
  let ?st = "collect_estimates cfg ?pts"
  from effective_weights[OF fc nz] obtain nt nd where
    nw: "normalized_weight_time req = Inr (Fin nt)" "normalized_weight_distance req = Inr (Fin nd)"
    and w: "0 \<le> nt" "nt \<le> 1" "0 \<le> nd" "nd \<le> 1" "round_double nt = nt" "round_double nd = nd"
    by blast
  let ?entry = "cost_entry ?pts (all_segments_data_cache ?st)
             (py_max (Fin 1) (max_duration_for_normalization ?st))
             (py_max (Fin 1) (max_distance_for_normalization ?st)) (Fin nt) (Fin nd)"
  have entry: "\<exists>c. ?entry i j = Inr (Fin c) \<and> 0 \<le> c \<and> c \<le> round_double (nt + nd)
                 \<and> (i = j \<longrightarrow> c = 0)"
    if "i < ?n" "j < ?n" for i j
  proof (rule cost_entry_bounds[OF collect_estimates_inv _ w])
    show "i \<noteq> j \<longrightarrow> all_segments_data_cache ?st (cache_key (?pts ! i) (?pts ! j)) \<noteq> None"
      using collect_estimates_covers[OF that] by simp
  qed
  have "\<exists>cm. build_cost_matrix ?pts (all_segments_data_cache ?st)
             (py_max (Fin 1) (max_duration_for_normalization ?st))
             (py_max (Fin 1) (max_distance_for_normalization ?st)) (Fin nt) (Fin nd) = Inr cm"
  proof (rule build_cost_matrix_total)
    fix i j assume "i < ?n" "j < ?n"
    from entry[OF this] show "\<exists>c. ?entry i j = Inr c" by blast
  qed
  then obtain cm where b: "build_cost_matrix ?pts (all_segments_data_cache ?st)
             (py_max (Fin 1) (max_duration_for_normalization ?st))
             (py_max (Fin 1) (max_distance_for_normalization ?st)) (Fin nt) (Fin nd) = Inr cm" ..
  then have cm: "request_cost_matrix cfg req = Inr cm"
    by (simp add: request_cost_matrix_weights[OF nw] cost_matrix_pass_def)
  note nth = build_cost_matrix_nth[OF b]
  have rows: "length (cm ! i) = ?n \<and> cm ! i ! i = Fin 0 \<and>
        (\<forall>j<?n. \<exists>c. cm ! i ! j = Fin c \<and> 0 \<le> c \<and> c \<le> round_double (nt + nd))"
    if i: "i < ?n" for i
  proof (intro conjI allI impI)
    show "length (cm ! i) = ?n" using nth i by blast
    from entry[OF i i] nth i show "cm ! i ! i = Fin 0" by auto
    fix j assume j: "j < ?n"
    from entry[OF i j] obtain c where
      "?entry i j = Inr (Fin c)" "0 \<le> c" "c \<le> round_double (nt + nd)" by blast
    moreover from nth i j have "?entry i j = Inr (cm ! i ! j)" by blast
    ultimately show "\<exists>c. cm ! i ! j = Fin c \<and> 0 \<le> c \<and> c \<le> round_double (nt + nd)" by simp
  qed
  have len: "length cm = ?n" using nth by blast
  let ?g = "\<lambda>v. projr (scale_cost v)"
  have cell: "scale_cost v = Inr (?g v) \<and> 0 \<le> ?g v \<and> ?g v \<le> 1000000000"
    if "row \<in> set cm" "v \<in> set row" for row v
  proof -
    from that obtain i j where "i < length cm" "row = cm ! i" "j < length row" "v = row ! j"
      by (metis in_set_conv_nth)
    with rows[of i] len obtain c where "v = Fin c" "0 \<le> c" by auto
    with scale_cost_nonneg[of c] show ?thesis by auto
  qed
  have row: "map_r scale_cost row = Inr (map ?g row)" if "row \<in> set cm" for row
    by (rule map_r_all_Inr) (use that cell in blast)
  have sc: "scaled_cost_matrix cm = Inr (map (map ?g) cm)"
    unfolding scaled_cost_matrix_def by (rule map_r_all_Inr) (rule row)
  have bounds: "\<forall>row\<in>set (map (map ?g) cm). \<forall>x\<in>set row. 0 \<le> x \<and> x \<le> 1000000000"
    using cell by auto
  have cb: "travel_cost_callback (map (map ?g) cm) = map (map ?g) cm"
    unfolding travel_cost_callback_def
    by (rule map_idI, rule map_idI) (use bounds in auto)
  have "request_arcs cfg req = Inr (map (map ?g) cm)" by (simp add: request_arcs_def cm sc cb)
  with nw cm len rows sc cb bounds show ?thesis
    by (intro exI[of _ nt] exI[of _ nd] exI[of _ cm] exI[of _ "map (map ?g) cm"]) simp
qed

section \<open>The first pass on the examples\<close>

lemma example_points_eq:
  "example_points =
     [\<lparr>pd_type = current_location, pd_id = ''current_location_0'',
       pd_latitude = Degrees (Fin 1), pd_longitude = Degrees (Fin 2), pd_weight = None\<rparr>,
      \<lparr>pd_type = order, pd_id = ''A'', pd_latitude = Degrees (Fin 3),
       pd_longitude = Degrees (Fin 4), pd_weight = Some (Fin 2)\<rparr>,
      \<lparr>pd_type = warehouse, pd_id = ''warehouse_final'', pd_latitude = Degrees (Fin 10),
       pd_longitude = Degrees (Fin 106), pd_weight = None\<rparr>]"
  by (simp add: example_points_def all_points_details_def example_request_def
      current_location_point_def order_point_def one_order_def warehouse_point_def
      warehouse_lat_def warehouse_lon_def example_config_def)

lemma collect_pair_same: "collect_pair cfg pts i i st = st"
  by (simp add: collect_pair_def)

lemma answering_route_data:
  "http_get cfg = answering_http \<Longrightarrow> snd (pair_route_data cfg p q) = Some short_route"
  by (simp add: pair_route_data_def get_mapbox_route_data_def answering_http_def)


lemma answering_distance:
  "http_get cfg = answering_http \<Longrightarrow> pair_distance cfg p q = Fin 100"
  by (simp add: pair_distance_def answering_route_data short_route_def distance_or_inf_def
      sanitize_def isnan_def)


lemma answering_duration:
  "http_get cfg = answering_http \<Longrightarrow> DELIVERY_MODEL cfg = None \<Longrightarrow>
   pair_duration cfg p q = Fin 10"
  by (simp add: pair_duration_def answering_route_data short_route_def duration_or_inf_def
      predicted_duration_def sanitize_def isnan_def)


lemma negative_model_duration:
  "http_get cfg = answering_http \<Longrightarrow> DELIVERY_MODEL cfg = Some negative_model \<Longrightarrow>
   pair_duration cfg p q = Fin 0"
  by (simp add: pair_duration_def answering_route_data short_route_def duration_or_inf_def
      predicted_duration_def negative_model_def sanitize_def isnan_def py_min_def py_max_def)


lemma example_configs:
  "http_get example_config = answering_http" "DELIVERY_MODEL example_config = None"
  "ortools example_config = in_order_solver"
  "http_get reversing_config = answering_http" "DELIVERY_MODEL reversing_config = None"
  "ortools reversing_config = reversing_solver"
  "http_get failing_config = failing_http" "DELIVERY_MODEL failing_config = None"
  "ortools failing_config = in_order_solver"
  "http_get predicting_config = answering_http"
  "DELIVERY_MODEL predicting_config = Some negative_model"
  "http_get offline_predicting_config = failing_http"
  "DELIVERY_MODEL offline_predicting_config = Some steady_model"
  "ortools offline_predicting_config = in_order_solver"
  by (simp_all add: example_config_def reversing_config_def failing_config_def
      predicting_config_def offline_predicting_config_def)

lemma constant_estimates:
  assumes "\<And>p q. pair_distance cfg p q = d" "\<And>p q. pair_duration cfg p q = t"
    and "i < length pts" "j < length pts" "i \<noteq> j"
  shows "\<exists>segment. all_segments_data_cache (collect_estimates cfg pts)
            (cache_key (pts ! i) (pts ! j)) = Some segment
          \<and> sd_distance segment = d \<and> sd_duration segment = t"
proof -
  from collect_estimates_covers[OF assms(3-5)] obtain segment where
    seg: "all_segments_data_cache (collect_estimates cfg pts) (cache_key (pts ! i) (pts ! j))
            = Some segment" by auto
  with collect_estimates_written_by[of cfg pts] assms(1,2)
  have "sd_distance segment = d" "sd_duration segment = t"
    unfolding written_by_def by metis+
  with seg show ?thesis by blast
qed

lemma predicting_cache:
  "all_segments_data_cache (collect_estimates predicting_config example_points)
     (Degrees (Fin 2), Degrees (Fin 1), Degrees (Fin 4), Degrees (Fin 3))
   = Some \<lparr>sd_distance = Fin 100, sd_duration = Fin 0, sd_mapbox_raw = Some short_route\<rparr>"
  by (simp add: collect_estimates_def example_points_eq upt_3 collect_pair_eq
      collect_pair_same answering_distance negative_model_duration answering_route_data
      example_configs collect_init_def cache_key_def)



section \<open>The solver adapter reports the unscaled cost\<close>

text \<open>
  Claim C8. Whenever \<open>solve_tsp_with_ortools\<close> returns a result, its \<open>total_cost\<close> is the
  sum of the entries of the original float cost matrix over the consecutive pairs of the
  returned \<open>route_indices\<close>; the scaled integer arcs take no part in it.
\<close>

theorem total_cost_is_unscaled_path_cost:
  assumes "solve_tsp_with_ortools solver cost_matrix n s e = (ev, Inr (Some res))"
  shows "total_cost res = path_cost cost_matrix (route_indices res)"
proof -
  from assms obtain scaled a rest where
    "solver (travel_cost_callback scaled) n s e = Some (a, rest)"
    and dec: "bind_r (decode_solution cost_matrix a rest [] (Fin 0))
           (\<lambda>(indices, cost_sum). Inr (Some \<lparr>route_indices = indices, total_cost = cost_sum\<rparr>))
         = Inr (Some res)"
    by (auto simp: solve_tsp_with_ortools_def Let_def split: sum.splits option.splits)
  from dec obtain r t where d: "decode_solution cost_matrix a rest [] (Fin 0) = Inr (r, t)"
    and res: "res = \<lparr>route_indices = r, total_cost = t\<rparr>"
    by (auto simp: bind_r_Inr)
  from decode_solution_sum[OF d] res show ?thesis
    by (simp add: path_cost_def)
qed

lemma small_costs_scaled:
  "scaled_cost_matrix small_costs = Inr [[0, 0, 500], [0, 0, 0], [500, 0, 0]]"
  by (simp add: scaled_cost_matrix_def small_costs_def scale_cost_def py_min_def
      INTEGER_SCALE_FACTOR_def MAX_ORTOOLS_COST_def float_values)

lemma small_costs_solved:
  "solve_tsp_with_ortools in_order_solver small_costs 3 0 2 =
     ([SolverCall [[0, 0, 500], [0, 0, 0], [500, 0, 0]] 3 0 2], Inr (Some small_costs_result))"
  unfolding solve_tsp_with_ortools_def small_costs_scaled
  by (simp add: travel_cost_callback_def in_order_solver_def upt_3 matrix_get_def
      small_costs_def small_costs_result_def float_values)

text \<open>
  On the three-node example the route 0, 1, 2 costs 1/2048 in the float matrix, and this is
  what is reported; the scaled arcs along the same route sum to 0.
\<close>

theorem total_cost_is_unscaled_path_cost_witness:
  "solve_tsp_with_ortools in_order_solver small_costs 3 0 2 =
     ([SolverCall [[0, 0, 500], [0, 0, 0], [500, 0, 0]] 3 0 2], Inr (Some small_costs_result))
   \<and> total_cost small_costs_result = path_cost small_costs (route_indices small_costs_result)
   \<and> total_cost small_costs_result = Fin (1 / 2048)
   \<and> scaled_objective [[0, 0, 500], [0, 0, 0], [500, 0, 0]] [0, 1, 2] = 0"
  using total_cost_is_unscaled_path_cost [OF small_costs_solved] small_costs_solved
  by (simp add: small_costs_result_def scaled_objective_def)

section \<open>A negative prediction\<close>

lemma negative_clamped:
  "flt v (Fin 0) \<Longrightarrow> sanitize (py_max (Fin 0) (py_min v md)) = Fin 0"
  by (cases v; cases md) (auto simp: py_min_def py_max_def sanitize_def isnan_def)

text \<open>
  Claim C4 says that a negative or NaN prediction makes the resolved duration equal to the
  provider's duration. On the example the provider reports 10 seconds for every pair and the
  model predicts \<open>-5\<close>: the duration cached for the pair from the current location to the
  order is 0, not 10.
\<close>

theorem negative_prediction_counterexample:
  "duration_or_inf (snd (pair_route_data predicting_config (example_points ! 0)
       (example_points ! 1))) = Fin 10
   \<and> map_option sd_duration
       (all_segments_data_cache (collect_estimates predicting_config example_points)
          (cache_key (example_points ! 0) (example_points ! 1)))
     = Some (Fin 0)"
  by (simp add: answering_route_data example_configs duration_or_inf_def short_route_def
      example_points_eq cache_key_def predicting_cache [unfolded example_points_eq])

text \<open>
  Claim C4, amended. When the model returns a negative value for a pair \<open>(i, j)\<close>, the
  duration that the first pass resolves and stores for that pair is 0, whatever the provider
  reported: the prediction is clamped at 0 and not replaced by the provider's duration. No
  duration held by the cache after the first pass is negative, NaN or infinite, so none is
  passed on.
\<close>

theorem negative_prediction_is_clamped_to_zero:
  "(\<forall>model v. i \<noteq> j \<and> DELIVERY_MODEL cfg = Some model
       \<and> model (pair_features cfg (pts ! i) (pts ! j)
                  (distance_or_inf (snd (pair_route_data cfg (pts ! i) (pts ! j))))) = Some v
       \<and> flt v (Fin 0)
      \<longrightarrow> map_option sd_duration
            (all_segments_data_cache (collect_pair cfg pts i j st)
               (cache_key (pts ! i) (pts ! j)))
          = Some (Fin 0))
   \<and> (\<forall>k segment. all_segments_data_cache (collect_estimates cfg pts) k = Some segment
         \<longrightarrow> finite_nonneg (sd_duration segment))"
proof (intro conjI allI impI)
  fix model v
  assume a: "i \<noteq> j \<and> DELIVERY_MODEL cfg = Some model
       \<and> model (pair_features cfg (pts ! i) (pts ! j)
                  (distance_or_inf (snd (pair_route_data cfg (pts ! i) (pts ! j))))) = Some v
       \<and> flt v (Fin 0)"
  then have "pair_duration cfg (pts ! i) (pts ! j) = Fin 0"
    by (simp add: pair_duration_def predicted_duration_def Let_def negative_clamped)
  with a show "map_option sd_duration
            (all_segments_data_cache (collect_pair cfg pts i j st)
               (cache_key (pts ! i) (pts ! j)))
          = Some (Fin 0)"
    by (simp add: collect_pair_eq)
next
  fix k segment
  assume "all_segments_data_cache (collect_estimates cfg pts) k = Some segment"
  with collect_estimates_written_by[of cfg pts] obtain a b where
    "sd_duration segment = pair_duration cfg (pts ! a) (pts ! b)"
    unfolding written_by_def by blast
  then show "finite_nonneg (sd_duration segment)" by (simp add: pair_duration_nonneg)
qed

theorem negative_prediction_is_clamped_to_zero_witness:
  "DELIVERY_MODEL predicting_config = Some negative_model
   \<and> negative_model (pair_features predicting_config (example_points ! 0) (example_points ! 1)
        (distance_or_inf (snd (pair_route_data predicting_config (example_points ! 0)
           (example_points ! 1))))) = Some (Fin (- 5))
   \<and> flt (Fin (- 5)) (Fin 0)
   \<and> map_option sd_duration
        (all_segments_data_cache (collect_pair predicting_config example_points 0 1 collect_init)
           (cache_key (example_points ! 0) (example_points ! 1)))
      = Some (Fin 0)
   \<and> all_segments_data_cache (collect_estimates predicting_config example_points)
        (Degrees (Fin 2), Degrees (Fin 1), Degrees (Fin 4), Degrees (Fin 3))
      = Some \<lparr>sd_distance = Fin 100, sd_duration = Fin 0, sd_mapbox_raw = Some short_route\<rparr>
   \<and> finite_nonneg (Fin 0)"
proof -
  note all = negative_prediction_is_clamped_to_zero
    [of 0 1 predicting_config example_points collect_init]
  from all [THEN conjunct1, rule_format, of negative_model "Fin (- 5)"]
  have "map_option sd_duration
        (all_segments_data_cache (collect_pair predicting_config example_points 0 1 collect_init)
           (cache_key (example_points ! 0) (example_points ! 1)))
      = Some (Fin 0)"
    by (simp add: example_configs negative_model_def)
  moreover from all [THEN conjunct2, rule_format, OF predicting_cache]
  have "finite_nonneg (Fin 0)" by simp
  ultimately show ?thesis
    using predicting_cache by (simp add: example_configs negative_model_def)
qed

section \<open>Sanitisation before the cache\<close>




section \<open>Rejection of zero weights, normalisation of the others\<close>

lemma skewed_weights:
  "weight_time skewed_request = 1080863910568919 / 36028797018963968"
  "weight_distance skewed_request = 5224175567749775 / 18014398509481984"
  by (simp_all add: skewed_request_def example_request_def)

lemma skewed_fc: "field_constraints skewed_request"
proof -
  have "round_double (1080863910568919 / 36028797018963968)
          = 1080863910568919 / 36028797018963968"
    using round_double_representable[of 1080863910568919 "- 55"] by (simp add: powr_minus)
  moreover have "round_double (5224175567749775 / 18014398509481984)
          = 5224175567749775 / 18014398509481984"
    using round_double_representable[of 5224175567749775 "- 54"] by (simp add: powr_minus)
  ultimately show ?thesis
    by (simp add: field_constraints_def skewed_weights)
       (simp add: skewed_request_def example_request_def one_order_def)
qed

lemma skewed_total:
  "round_double (1080863910568919 / 36028797018963968 + 5224175567749775 / 18014398509481984)
     = 2882303761517117 / 9007199254740992"
  by (subst round_double_eval[where k = "- 2"])
     (simp_all add: powr_minus round_half_even_def Let_def)

lemma skewed_time:
  "round_double ((1080863910568919 / 36028797018963968)
                   / (2882303761517117 / 9007199254740992))
     = 6755399441055745 / 72057594037927936"
  by (subst round_double_eval[where k = "- 4"])
     (simp_all add: powr_minus round_half_even_def Let_def)

lemma skewed_distance:
  "round_double ((5224175567749775 / 18014398509481984)
                   / (2882303761517117 / 9007199254740992))
     = 8162774324609025 / 9007199254740992"
  by (subst round_double_eval[where k = "- 1"])
     (simp_all add: powr_minus round_half_even_def Let_def)

lemma skewed_sum:
  "round_double (6755399441055745 / 72057594037927936 + 8162774324609025 / 9007199254740992)
     = 4503599627370497 / 4503599627370496"
  by (subst round_double_eval[where k = "0"])
     (simp_all add: powr_minus round_half_even_def Let_def)

lemma skewed_sum_float:
  "fadd (Fin (6755399441055745 / 72057594037927936)) (Fin (8162774324609025 / 9007199254740992))
     = Fin (4503599627370497 / 4503599627370496)"
proof -
  have "\<bar>6755399441055745 / 72057594037927936 + 8162774324609025 / 9007199254740992 :: real\<bar>
          \<le> 2 ^ 1"
    by simp
  also have "(2 :: real) ^ 1 \<le> 2 ^ 1023" by (rule power_increasing) simp_all
  finally show ?thesis by (simp only: fadd.simps to_float_fin skewed_sum)
qed

lemma skewed_total_weights:
  "total_weights skewed_request = Fin (2882303761517117 / 9007199254740992)"
  using total_weights_fin(1)[OF skewed_fc] by (simp only: skewed_weights skewed_total)

lemma skewed_normalized:
  "normalized_weight_time skewed_request = Inr (Fin (6755399441055745 / 72057594037927936))"
  "normalized_weight_distance skewed_request = Inr (Fin (8162774324609025 / 9007199254740992))"
proof -
  have nz: "weight_time skewed_request + weight_distance skewed_request \<noteq> 0"
    by (simp add: skewed_weights)
  from effective_weights[OF skewed_fc nz]
  show "normalized_weight_time skewed_request
          = Inr (Fin (6755399441055745 / 72057594037927936))"
    "normalized_weight_distance skewed_request
          = Inr (Fin (8162774324609025 / 9007199254740992))"
    by (auto simp only: skewed_weights skewed_total skewed_time skewed_distance)
qed

text \<open>
  Claim C7 says that the effective weights sum to 1. For the weights \<open>0.03\<close> and \<open>0.29\<close>,
  which the schema accepts, the two quotients are the floats \<open>0.09375000000000001\<close> and
  \<open>0.9062500000000001\<close>; their sum is not 1, neither exactly nor as the float sum, which is
  \<open>1.0000000000000002\<close>.
\<close>

theorem effective_weights_counterexample:
  "field_constraints skewed_request
   \<and> normalized_weight_time skewed_request
       = Inr (Fin (6755399441055745 / 72057594037927936))
   \<and> normalized_weight_distance skewed_request
       = Inr (Fin (8162774324609025 / 9007199254740992))
   \<and> (6755399441055745 / 72057594037927936 :: real) + 8162774324609025 / 9007199254740992 \<noteq> 1
   \<and> fadd (Fin (6755399441055745 / 72057594037927936))
          (Fin (8162774324609025 / 9007199254740992))
       = Fin (4503599627370497 / 4503599627370496)
   \<and> Fin (4503599627370497 / 4503599627370496) \<noteq> Fin 1"
  using skewed_fc skewed_normalized skewed_sum_float by simp

text \<open>
  Claim C7, amended. If \<open>weight_time + weight_distance = 0\<close> the endpoint raises the HTTP
  400 error and no call to the provider, the predictor or the solver has been made (the list
  of calls is empty). Otherwise, for weights that satisfy the schema, each weight is divided
  by the sum, in floats, before any cost is computed: the optimisation runs with the two
  quotients, each of which lies between 0 and 1, and their sum is 1 up to rounding, namely
  within \<open>2^-50\<close> of 1.
\<close>

theorem zero_weights_rejected_else_divided_by_sum:
  "(weight_time req + weight_distance req = 0 \<longrightarrow>
      optimize_delivery_route cfg req =
        ([], Inl (HTTPException 400 ''Total weights for time and distance cannot be zero.'')))
   \<and> (field_constraints req \<and> weight_time req + weight_distance req \<noteq> 0 \<longrightarrow>
        (\<exists>nwt nwd.
           normalized_weight_time req = Inr (Fin nwt)
           \<and> normalized_weight_distance req = Inr (Fin nwd)
           \<and> nwt = round_double (weight_time req
                                   / round_double (weight_time req + weight_distance req))
           \<and> nwd = round_double (weight_distance req
                                   / round_double (weight_time req + weight_distance req))
           \<and> 0 \<le> nwt \<and> nwt \<le> 1 \<and> 0 \<le> nwd \<and> nwd \<le> 1
           \<and> \<bar>nwt + nwd - 1\<bar> \<le> 1 / 2 ^ 50
           \<and> optimize_delivery_route cfg req =
               optimize_with_weights cfg (all_points_details cfg req) (Fin nwt) (Fin nwd)))"
proof (intro conjI impI)
  assume "weight_time req + weight_distance req = 0"
  then show "optimize_delivery_route cfg req =
        ([], Inl (HTTPException 400 ''Total weights for time and distance cannot be zero.''))"
    by (simp add: optimize_delivery_route_def length_all_points Let_def total_weights_zero)
next
  assume a: "field_constraints req \<and> weight_time req + weight_distance req \<noteq> 0"
  then have fc: "field_constraints req" and nz: "weight_time req + weight_distance req \<noteq> 0"
    by simp_all
  from effective_weights[OF fc nz] obtain nwt nwd where
    w: "normalized_weight_time req = Inr (Fin nwt)"
      "normalized_weight_distance req = Inr (Fin nwd)"
      "nwt = round_double (weight_time req
                             / round_double (weight_time req + weight_distance req))"
      "nwd = round_double (weight_distance req
                             / round_double (weight_time req + weight_distance req))"
      "0 \<le> nwt" "nwt \<le> 1" "0 \<le> nwd" "nwd \<le> 1"
    by blast
  from nz total_weights_zero_iff[OF fc] have tz: "total_weights req \<noteq> Fin 0" by simp
  from effective_weights_sum(1)[OF fc nz] w(3,4)
  have s: "\<bar>nwt + nwd - 1\<bar> \<le> 1 / 2 ^ 50" by simp
  note run = optimize_nonzero[OF tz w(1,2), of cfg]
  from w s run
  show "\<exists>nwt nwd.
           normalized_weight_time req = Inr (Fin nwt)
           \<and> normalized_weight_distance req = Inr (Fin nwd)
           \<and> nwt = round_double (weight_time req
                                   / round_double (weight_time req + weight_distance req))
           \<and> nwd = round_double (weight_distance req
                                   / round_double (weight_time req + weight_distance req))
           \<and> 0 \<le> nwt \<and> nwt \<le> 1 \<and> 0 \<le> nwd \<and> nwd \<le> 1
           \<and> \<bar>nwt + nwd - 1\<bar> \<le> 1 / 2 ^ 50
           \<and> optimize_delivery_route cfg req =
               optimize_with_weights cfg (all_points_details cfg req) (Fin nwt) (Fin nwd)"
    by blast
qed

lemma example_fc: "field_constraints example_request"
proof -
  have "round_double (1 / 2) = 1 / 2"
    using round_double_representable[of 1 "- 1"] by (simp add: powr_minus)
  then show ?thesis by (simp add: field_constraints_def example_request_def one_order_def)
qed

lemma round_half [simp]: "round_double (1 / 2) = 1 / 2"
  using round_double_representable[of 1 "- 1"] by (simp add: powr_minus)

theorem zero_weights_rejected_else_divided_by_sum_witness:
  "weight_time zero_weight_request + weight_distance zero_weight_request = 0
   \<and> optimize_delivery_route example_config zero_weight_request =
       ([], Inl (HTTPException 400 ''Total weights for time and distance cannot be zero.''))
   \<and> field_constraints example_request
   \<and> weight_time example_request + weight_distance example_request \<noteq> 0
   \<and> normalized_weight_time example_request = Inr (Fin (1 / 2))
   \<and> normalized_weight_distance example_request = Inr (Fin (1 / 2))
   \<and> optimize_delivery_route example_config example_request =
       optimize_with_weights example_config
         (all_points_details example_config example_request) (Fin (1 / 2)) (Fin (1 / 2))"
proof -
  have z: "weight_time zero_weight_request + weight_distance zero_weight_request = 0"
    by (simp add: zero_weight_request_def example_request_def)
  have nz: "weight_time example_request + weight_distance example_request \<noteq> 0"
    by (simp add: example_request_def)
  from zero_weights_rejected_else_divided_by_sum
         [of zero_weight_request example_config, THEN conjunct1, rule_format, OF z]
  have "optimize_delivery_route example_config zero_weight_request =
       ([], Inl (HTTPException 400 ''Total weights for time and distance cannot be zero.''))" .
  moreover have "normalized_weight_time example_request = Inr (Fin (1 / 2))
   \<and> normalized_weight_distance example_request = Inr (Fin (1 / 2))
   \<and> optimize_delivery_route example_config example_request =
       optimize_with_weights example_config
         (all_points_details example_config example_request) (Fin (1 / 2)) (Fin (1 / 2))"
  proof -
    from zero_weights_rejected_else_divided_by_sum
         [of example_request example_config, THEN conjunct2, rule_format, OF conjI,
          OF example_fc nz]
    obtain nwt nwd where w: "normalized_weight_time example_request = Inr (Fin nwt)"
      "normalized_weight_distance example_request = Inr (Fin nwd)"
      "nwt = round_double (weight_time example_request
               / round_double (weight_time example_request + weight_distance example_request))"
      "nwd = round_double (weight_distance example_request
               / round_double (weight_time example_request + weight_distance example_request))"
      "optimize_delivery_route example_config example_request =
         optimize_with_weights example_config
           (all_points_details example_config example_request) (Fin nwt) (Fin nwd)"
      by blast
    from w(3,4) have "nwt = 1 / 2" "nwd = 1 / 2" by (simp_all add: example_request_def)
    with w(1,2,5) show ?thesis by simp
  qed
  ultimately show ?thesis using z nz example_fc by simp
qed

end
